theory Spec2Isabelle
  imports Main
begin

section \<open>Token kinds\<close>

text \<open>
  \<^verbatim>\<open>TokenType\<close> is a C enumeration (sql_parser.h): its enumerators are the integers
  \<open>0, 1, 2, \<dots>\<close> in the order of declaration, \<^verbatim>\<open>TOKEN_EOF = 0\<close> first and
  \<^verbatim>\<open>TOKEN_MAX\<close> last. Each enumerator is a constant with that value.
\<close>

type_synonym TokenType = nat

named_theorems tok_defs \<open>the values of the TokenType enumerators\<close>
definition TOKEN_EOF :: TokenType where [tok_defs]: "TOKEN_EOF = 0"
definition TOKEN_ERROR :: TokenType where [tok_defs]: "TOKEN_ERROR = 1"
definition TOKEN_ICONST :: TokenType where [tok_defs]: "TOKEN_ICONST = 2"
definition TOKEN_FCONST :: TokenType where [tok_defs]: "TOKEN_FCONST = 3"
definition TOKEN_SCONST :: TokenType where [tok_defs]: "TOKEN_SCONST = 4"
definition TOKEN_BCONST :: TokenType where [tok_defs]: "TOKEN_BCONST = 5"
definition TOKEN_XCONST :: TokenType where [tok_defs]: "TOKEN_XCONST = 6"
definition TOKEN_PARAM :: TokenType where [tok_defs]: "TOKEN_PARAM = 7"
definition TOKEN_IDENT :: TokenType where [tok_defs]: "TOKEN_IDENT = 8"
definition TOKEN_UIDENT :: TokenType where [tok_defs]: "TOKEN_UIDENT = 9"
definition TOKEN_TYPECAST :: TokenType where [tok_defs]: "TOKEN_TYPECAST = 10"
definition TOKEN_DOT :: TokenType where [tok_defs]: "TOKEN_DOT = 11"
definition TOKEN_COMMA :: TokenType where [tok_defs]: "TOKEN_COMMA = 12"
definition TOKEN_SEMICOLON :: TokenType where [tok_defs]: "TOKEN_SEMICOLON = 13"
definition TOKEN_COLON :: TokenType where [tok_defs]: "TOKEN_COLON = 14"
definition TOKEN_PLUS :: TokenType where [tok_defs]: "TOKEN_PLUS = 15"
definition TOKEN_MINUS :: TokenType where [tok_defs]: "TOKEN_MINUS = 16"
definition TOKEN_MULTIPLY :: TokenType where [tok_defs]: "TOKEN_MULTIPLY = 17"
definition TOKEN_DIVIDE :: TokenType where [tok_defs]: "TOKEN_DIVIDE = 18"
definition TOKEN_MODULO :: TokenType where [tok_defs]: "TOKEN_MODULO = 19"
definition TOKEN_POWER :: TokenType where [tok_defs]: "TOKEN_POWER = 20"
definition TOKEN_LT :: TokenType where [tok_defs]: "TOKEN_LT = 21"
definition TOKEN_LE :: TokenType where [tok_defs]: "TOKEN_LE = 22"
definition TOKEN_GT :: TokenType where [tok_defs]: "TOKEN_GT = 23"
definition TOKEN_GE :: TokenType where [tok_defs]: "TOKEN_GE = 24"
definition TOKEN_EQ :: TokenType where [tok_defs]: "TOKEN_EQ = 25"
definition TOKEN_NE :: TokenType where [tok_defs]: "TOKEN_NE = 26"
definition TOKEN_CONCAT :: TokenType where [tok_defs]: "TOKEN_CONCAT = 27"
definition TOKEN_LSHIFT :: TokenType where [tok_defs]: "TOKEN_LSHIFT = 28"
definition TOKEN_RSHIFT :: TokenType where [tok_defs]: "TOKEN_RSHIFT = 29"
definition TOKEN_BITAND :: TokenType where [tok_defs]: "TOKEN_BITAND = 30"
definition TOKEN_BITOR :: TokenType where [tok_defs]: "TOKEN_BITOR = 31"
definition TOKEN_BITXOR :: TokenType where [tok_defs]: "TOKEN_BITXOR = 32"
definition TOKEN_BITNOT :: TokenType where [tok_defs]: "TOKEN_BITNOT = 33"
definition TOKEN_REGEX_MATCH :: TokenType where [tok_defs]: "TOKEN_REGEX_MATCH = 34"
definition TOKEN_REGEX_IMATCH :: TokenType where [tok_defs]: "TOKEN_REGEX_IMATCH = 35"
definition TOKEN_REGEX_NMATCH :: TokenType where [tok_defs]: "TOKEN_REGEX_NMATCH = 36"
definition TOKEN_REGEX_INMATCH :: TokenType where [tok_defs]: "TOKEN_REGEX_INMATCH = 37"
definition TOKEN_JSON_EXTRACT :: TokenType where [tok_defs]: "TOKEN_JSON_EXTRACT = 38"
definition TOKEN_JSON_EXTRACT_TEXT :: TokenType where [tok_defs]: "TOKEN_JSON_EXTRACT_TEXT = 39"
definition TOKEN_JSON_PATH :: TokenType where [tok_defs]: "TOKEN_JSON_PATH = 40"
definition TOKEN_JSON_PATH_TEXT :: TokenType where [tok_defs]: "TOKEN_JSON_PATH_TEXT = 41"
definition TOKEN_LPAREN :: TokenType where [tok_defs]: "TOKEN_LPAREN = 42"
definition TOKEN_RPAREN :: TokenType where [tok_defs]: "TOKEN_RPAREN = 43"
definition TOKEN_LBRACKET :: TokenType where [tok_defs]: "TOKEN_LBRACKET = 44"
definition TOKEN_RBRACKET :: TokenType where [tok_defs]: "TOKEN_RBRACKET = 45"
definition TOKEN_LBRACE :: TokenType where [tok_defs]: "TOKEN_LBRACE = 46"
definition TOKEN_RBRACE :: TokenType where [tok_defs]: "TOKEN_RBRACE = 47"
definition TOKEN_SELECT :: TokenType where [tok_defs]: "TOKEN_SELECT = 48"
definition TOKEN_FROM :: TokenType where [tok_defs]: "TOKEN_FROM = 49"
definition TOKEN_WHERE :: TokenType where [tok_defs]: "TOKEN_WHERE = 50"
definition TOKEN_INSERT :: TokenType where [tok_defs]: "TOKEN_INSERT = 51"
definition TOKEN_UPDATE :: TokenType where [tok_defs]: "TOKEN_UPDATE = 52"
definition TOKEN_DELETE :: TokenType where [tok_defs]: "TOKEN_DELETE = 53"
definition TOKEN_CREATE :: TokenType where [tok_defs]: "TOKEN_CREATE = 54"
definition TOKEN_DROP :: TokenType where [tok_defs]: "TOKEN_DROP = 55"
definition TOKEN_ALTER :: TokenType where [tok_defs]: "TOKEN_ALTER = 56"
definition TOKEN_TABLE :: TokenType where [tok_defs]: "TOKEN_TABLE = 57"
definition TOKEN_INDEX :: TokenType where [tok_defs]: "TOKEN_INDEX = 58"
definition TOKEN_VIEW :: TokenType where [tok_defs]: "TOKEN_VIEW = 59"
definition TOKEN_FUNCTION :: TokenType where [tok_defs]: "TOKEN_FUNCTION = 60"
definition TOKEN_PROCEDURE :: TokenType where [tok_defs]: "TOKEN_PROCEDURE = 61"
definition TOKEN_TRIGGER :: TokenType where [tok_defs]: "TOKEN_TRIGGER = 62"
definition TOKEN_SCHEMA :: TokenType where [tok_defs]: "TOKEN_SCHEMA = 63"
definition TOKEN_DATABASE :: TokenType where [tok_defs]: "TOKEN_DATABASE = 64"
definition TOKEN_WITH :: TokenType where [tok_defs]: "TOKEN_WITH = 65"
definition TOKEN_RECURSIVE :: TokenType where [tok_defs]: "TOKEN_RECURSIVE = 66"
definition TOKEN_AS :: TokenType where [tok_defs]: "TOKEN_AS = 67"
definition TOKEN_DISTINCT :: TokenType where [tok_defs]: "TOKEN_DISTINCT = 68"
definition TOKEN_ALL :: TokenType where [tok_defs]: "TOKEN_ALL = 69"
definition TOKEN_ANY :: TokenType where [tok_defs]: "TOKEN_ANY = 70"
definition TOKEN_SOME :: TokenType where [tok_defs]: "TOKEN_SOME = 71"
definition TOKEN_EXISTS :: TokenType where [tok_defs]: "TOKEN_EXISTS = 72"
definition TOKEN_IN :: TokenType where [tok_defs]: "TOKEN_IN = 73"
definition TOKEN_BETWEEN :: TokenType where [tok_defs]: "TOKEN_BETWEEN = 74"
definition TOKEN_LIKE :: TokenType where [tok_defs]: "TOKEN_LIKE = 75"
definition TOKEN_ILIKE :: TokenType where [tok_defs]: "TOKEN_ILIKE = 76"
definition TOKEN_SIMILAR :: TokenType where [tok_defs]: "TOKEN_SIMILAR = 77"
definition TOKEN_IS :: TokenType where [tok_defs]: "TOKEN_IS = 78"
definition TOKEN_NULL_P :: TokenType where [tok_defs]: "TOKEN_NULL_P = 79"
definition TOKEN_TRUE_P :: TokenType where [tok_defs]: "TOKEN_TRUE_P = 80"
definition TOKEN_FALSE_P :: TokenType where [tok_defs]: "TOKEN_FALSE_P = 81"
definition TOKEN_AND :: TokenType where [tok_defs]: "TOKEN_AND = 82"
definition TOKEN_OR :: TokenType where [tok_defs]: "TOKEN_OR = 83"
definition TOKEN_NOT :: TokenType where [tok_defs]: "TOKEN_NOT = 84"
definition TOKEN_CASE :: TokenType where [tok_defs]: "TOKEN_CASE = 85"
definition TOKEN_WHEN :: TokenType where [tok_defs]: "TOKEN_WHEN = 86"
definition TOKEN_THEN :: TokenType where [tok_defs]: "TOKEN_THEN = 87"
definition TOKEN_ELSE :: TokenType where [tok_defs]: "TOKEN_ELSE = 88"
definition TOKEN_END_P :: TokenType where [tok_defs]: "TOKEN_END_P = 89"
definition TOKEN_IF_P :: TokenType where [tok_defs]: "TOKEN_IF_P = 90"
definition TOKEN_JOIN :: TokenType where [tok_defs]: "TOKEN_JOIN = 91"
definition TOKEN_INNER_P :: TokenType where [tok_defs]: "TOKEN_INNER_P = 92"
definition TOKEN_LEFT :: TokenType where [tok_defs]: "TOKEN_LEFT = 93"
definition TOKEN_RIGHT :: TokenType where [tok_defs]: "TOKEN_RIGHT = 94"
definition TOKEN_FULL :: TokenType where [tok_defs]: "TOKEN_FULL = 95"
definition TOKEN_OUTER_P :: TokenType where [tok_defs]: "TOKEN_OUTER_P = 96"
definition TOKEN_CROSS :: TokenType where [tok_defs]: "TOKEN_CROSS = 97"
definition TOKEN_NATURAL :: TokenType where [tok_defs]: "TOKEN_NATURAL = 98"
definition TOKEN_ON :: TokenType where [tok_defs]: "TOKEN_ON = 99"
definition TOKEN_USING :: TokenType where [tok_defs]: "TOKEN_USING = 100"
definition TOKEN_GROUP_P :: TokenType where [tok_defs]: "TOKEN_GROUP_P = 101"
definition TOKEN_BY :: TokenType where [tok_defs]: "TOKEN_BY = 102"
definition TOKEN_HAVING :: TokenType where [tok_defs]: "TOKEN_HAVING = 103"
definition TOKEN_ORDER :: TokenType where [tok_defs]: "TOKEN_ORDER = 104"
definition TOKEN_ASC :: TokenType where [tok_defs]: "TOKEN_ASC = 105"
definition TOKEN_DESC :: TokenType where [tok_defs]: "TOKEN_DESC = 106"
definition TOKEN_LIMIT :: TokenType where [tok_defs]: "TOKEN_LIMIT = 107"
definition TOKEN_OFFSET :: TokenType where [tok_defs]: "TOKEN_OFFSET = 108"
definition TOKEN_UNION :: TokenType where [tok_defs]: "TOKEN_UNION = 109"
definition TOKEN_INTERSECT :: TokenType where [tok_defs]: "TOKEN_INTERSECT = 110"
definition TOKEN_EXCEPT :: TokenType where [tok_defs]: "TOKEN_EXCEPT = 111"
definition TOKEN_WINDOW :: TokenType where [tok_defs]: "TOKEN_WINDOW = 112"
definition TOKEN_PARTITION :: TokenType where [tok_defs]: "TOKEN_PARTITION = 113"
definition TOKEN_OVER :: TokenType where [tok_defs]: "TOKEN_OVER = 114"
definition TOKEN_RANGE :: TokenType where [tok_defs]: "TOKEN_RANGE = 115"
definition TOKEN_ROWS :: TokenType where [tok_defs]: "TOKEN_ROWS = 116"
definition TOKEN_UNBOUNDED :: TokenType where [tok_defs]: "TOKEN_UNBOUNDED = 117"
definition TOKEN_PRECEDING :: TokenType where [tok_defs]: "TOKEN_PRECEDING = 118"
definition TOKEN_FOLLOWING :: TokenType where [tok_defs]: "TOKEN_FOLLOWING = 119"
definition TOKEN_CURRENT_P :: TokenType where [tok_defs]: "TOKEN_CURRENT_P = 120"
definition TOKEN_ROW :: TokenType where [tok_defs]: "TOKEN_ROW = 121"
definition TOKEN_CAST :: TokenType where [tok_defs]: "TOKEN_CAST = 122"
definition TOKEN_EXTRACT :: TokenType where [tok_defs]: "TOKEN_EXTRACT = 123"
definition TOKEN_OVERLAY :: TokenType where [tok_defs]: "TOKEN_OVERLAY = 124"
definition TOKEN_POSITION :: TokenType where [tok_defs]: "TOKEN_POSITION = 125"
definition TOKEN_SUBSTRING :: TokenType where [tok_defs]: "TOKEN_SUBSTRING = 126"
definition TOKEN_TRIM :: TokenType where [tok_defs]: "TOKEN_TRIM = 127"
definition TOKEN_LEADING :: TokenType where [tok_defs]: "TOKEN_LEADING = 128"
definition TOKEN_TRAILING :: TokenType where [tok_defs]: "TOKEN_TRAILING = 129"
definition TOKEN_BOTH :: TokenType where [tok_defs]: "TOKEN_BOTH = 130"
definition TOKEN_COLLATE :: TokenType where [tok_defs]: "TOKEN_COLLATE = 131"
definition TOKEN_CONSTRAINT :: TokenType where [tok_defs]: "TOKEN_CONSTRAINT = 132"
definition TOKEN_DEFAULT :: TokenType where [tok_defs]: "TOKEN_DEFAULT = 133"
definition TOKEN_CHECK :: TokenType where [tok_defs]: "TOKEN_CHECK = 134"
definition TOKEN_PRIMARY :: TokenType where [tok_defs]: "TOKEN_PRIMARY = 135"
definition TOKEN_KEY :: TokenType where [tok_defs]: "TOKEN_KEY = 136"
definition TOKEN_UNIQUE :: TokenType where [tok_defs]: "TOKEN_UNIQUE = 137"
definition TOKEN_FOREIGN :: TokenType where [tok_defs]: "TOKEN_FOREIGN = 138"
definition TOKEN_REFERENCES :: TokenType where [tok_defs]: "TOKEN_REFERENCES = 139"
definition TOKEN_MATCH :: TokenType where [tok_defs]: "TOKEN_MATCH = 140"
definition TOKEN_PARTIAL :: TokenType where [tok_defs]: "TOKEN_PARTIAL = 141"
definition TOKEN_SIMPLE :: TokenType where [tok_defs]: "TOKEN_SIMPLE = 142"
definition TOKEN_FULL_P :: TokenType where [tok_defs]: "TOKEN_FULL_P = 143"
definition TOKEN_CASCADE :: TokenType where [tok_defs]: "TOKEN_CASCADE = 144"
definition TOKEN_RESTRICT :: TokenType where [tok_defs]: "TOKEN_RESTRICT = 145"
definition TOKEN_SET :: TokenType where [tok_defs]: "TOKEN_SET = 146"
definition TOKEN_ACTION :: TokenType where [tok_defs]: "TOKEN_ACTION = 147"
definition TOKEN_NO :: TokenType where [tok_defs]: "TOKEN_NO = 148"
definition TOKEN_DEFERRABLE :: TokenType where [tok_defs]: "TOKEN_DEFERRABLE = 149"
definition TOKEN_INITIALLY :: TokenType where [tok_defs]: "TOKEN_INITIALLY = 150"
definition TOKEN_DEFERRED :: TokenType where [tok_defs]: "TOKEN_DEFERRED = 151"
definition TOKEN_IMMEDIATE :: TokenType where [tok_defs]: "TOKEN_IMMEDIATE = 152"
definition TOKEN_TEMPORARY :: TokenType where [tok_defs]: "TOKEN_TEMPORARY = 153"
definition TOKEN_TEMP :: TokenType where [tok_defs]: "TOKEN_TEMP = 154"
definition TOKEN_UNLOGGED :: TokenType where [tok_defs]: "TOKEN_UNLOGGED = 155"
definition TOKEN_LOGGED :: TokenType where [tok_defs]: "TOKEN_LOGGED = 156"
definition TOKEN_GLOBAL :: TokenType where [tok_defs]: "TOKEN_GLOBAL = 157"
definition TOKEN_LOCAL :: TokenType where [tok_defs]: "TOKEN_LOCAL = 158"
definition TOKEN_PRESERVE :: TokenType where [tok_defs]: "TOKEN_PRESERVE = 159"
definition TOKEN_COMMIT :: TokenType where [tok_defs]: "TOKEN_COMMIT = 160"
definition TOKEN_ROLLBACK :: TokenType where [tok_defs]: "TOKEN_ROLLBACK = 161"
definition TOKEN_WORK :: TokenType where [tok_defs]: "TOKEN_WORK = 162"
definition TOKEN_TRANSACTION :: TokenType where [tok_defs]: "TOKEN_TRANSACTION = 163"
definition TOKEN_BEGIN_P :: TokenType where [tok_defs]: "TOKEN_BEGIN_P = 164"
definition TOKEN_START :: TokenType where [tok_defs]: "TOKEN_START = 165"
definition TOKEN_SAVEPOINT :: TokenType where [tok_defs]: "TOKEN_SAVEPOINT = 166"
definition TOKEN_RELEASE :: TokenType where [tok_defs]: "TOKEN_RELEASE = 167"
definition TOKEN_ISOLATION :: TokenType where [tok_defs]: "TOKEN_ISOLATION = 168"
definition TOKEN_LEVEL :: TokenType where [tok_defs]: "TOKEN_LEVEL = 169"
definition TOKEN_READ :: TokenType where [tok_defs]: "TOKEN_READ = 170"
definition TOKEN_WRITE :: TokenType where [tok_defs]: "TOKEN_WRITE = 171"
definition TOKEN_ONLY :: TokenType where [tok_defs]: "TOKEN_ONLY = 172"
definition TOKEN_SERIALIZABLE :: TokenType where [tok_defs]: "TOKEN_SERIALIZABLE = 173"
definition TOKEN_REPEATABLE :: TokenType where [tok_defs]: "TOKEN_REPEATABLE = 174"
definition TOKEN_COMMITTED :: TokenType where [tok_defs]: "TOKEN_COMMITTED = 175"
definition TOKEN_UNCOMMITTED :: TokenType where [tok_defs]: "TOKEN_UNCOMMITTED = 176"
definition TOKEN_SNAPSHOT :: TokenType where [tok_defs]: "TOKEN_SNAPSHOT = 177"
definition TOKEN_EXPLAIN :: TokenType where [tok_defs]: "TOKEN_EXPLAIN = 178"
definition TOKEN_ANALYZE :: TokenType where [tok_defs]: "TOKEN_ANALYZE = 179"
definition TOKEN_VERBOSE :: TokenType where [tok_defs]: "TOKEN_VERBOSE = 180"
definition TOKEN_COSTS :: TokenType where [tok_defs]: "TOKEN_COSTS = 181"
definition TOKEN_SETTINGS :: TokenType where [tok_defs]: "TOKEN_SETTINGS = 182"
definition TOKEN_BUFFERS :: TokenType where [tok_defs]: "TOKEN_BUFFERS = 183"
definition TOKEN_TIMING :: TokenType where [tok_defs]: "TOKEN_TIMING = 184"
definition TOKEN_SUMMARY :: TokenType where [tok_defs]: "TOKEN_SUMMARY = 185"
definition TOKEN_FORMAT :: TokenType where [tok_defs]: "TOKEN_FORMAT = 186"
definition TOKEN_GRANT :: TokenType where [tok_defs]: "TOKEN_GRANT = 187"
definition TOKEN_REVOKE :: TokenType where [tok_defs]: "TOKEN_REVOKE = 188"
definition TOKEN_ROLE :: TokenType where [tok_defs]: "TOKEN_ROLE = 189"
definition TOKEN_USER :: TokenType where [tok_defs]: "TOKEN_USER = 190"
definition TOKEN_PRIVILEGE :: TokenType where [tok_defs]: "TOKEN_PRIVILEGE = 191"
definition TOKEN_PRIVILEGES :: TokenType where [tok_defs]: "TOKEN_PRIVILEGES = 192"
definition TOKEN_PUBLIC :: TokenType where [tok_defs]: "TOKEN_PUBLIC = 193"
definition TOKEN_USAGE :: TokenType where [tok_defs]: "TOKEN_USAGE = 194"
definition TOKEN_EXECUTE :: TokenType where [tok_defs]: "TOKEN_EXECUTE = 195"
definition TOKEN_CONNECT :: TokenType where [tok_defs]: "TOKEN_CONNECT = 196"
definition TOKEN_TEMPORARY_P :: TokenType where [tok_defs]: "TOKEN_TEMPORARY_P = 197"
definition TOKEN_TRUNCATE :: TokenType where [tok_defs]: "TOKEN_TRUNCATE = 198"
definition TOKEN_VACUUM :: TokenType where [tok_defs]: "TOKEN_VACUUM = 199"
definition TOKEN_ANALYZE_P :: TokenType where [tok_defs]: "TOKEN_ANALYZE_P = 200"
definition TOKEN_REINDEX :: TokenType where [tok_defs]: "TOKEN_REINDEX = 201"
definition TOKEN_CLUSTER :: TokenType where [tok_defs]: "TOKEN_CLUSTER = 202"
definition TOKEN_COPY :: TokenType where [tok_defs]: "TOKEN_COPY = 203"
definition TOKEN_STDIN :: TokenType where [tok_defs]: "TOKEN_STDIN = 204"
definition TOKEN_STDOUT :: TokenType where [tok_defs]: "TOKEN_STDOUT = 205"
definition TOKEN_DELIMITER :: TokenType where [tok_defs]: "TOKEN_DELIMITER = 206"
definition TOKEN_CSV :: TokenType where [tok_defs]: "TOKEN_CSV = 207"
definition TOKEN_HEADER :: TokenType where [tok_defs]: "TOKEN_HEADER = 208"
definition TOKEN_QUOTE :: TokenType where [tok_defs]: "TOKEN_QUOTE = 209"
definition TOKEN_ESCAPE :: TokenType where [tok_defs]: "TOKEN_ESCAPE = 210"
definition TOKEN_FORCE :: TokenType where [tok_defs]: "TOKEN_FORCE = 211"
definition TOKEN_NULL_PRINT :: TokenType where [tok_defs]: "TOKEN_NULL_PRINT = 212"
definition TOKEN_ENCODING :: TokenType where [tok_defs]: "TOKEN_ENCODING = 213"
definition TOKEN_BOOLEAN :: TokenType where [tok_defs]: "TOKEN_BOOLEAN = 214"
definition TOKEN_CHAR_P :: TokenType where [tok_defs]: "TOKEN_CHAR_P = 215"
definition TOKEN_CHARACTER :: TokenType where [tok_defs]: "TOKEN_CHARACTER = 216"
definition TOKEN_VARCHAR :: TokenType where [tok_defs]: "TOKEN_VARCHAR = 217"
definition TOKEN_TEXT :: TokenType where [tok_defs]: "TOKEN_TEXT = 218"
definition TOKEN_NAME :: TokenType where [tok_defs]: "TOKEN_NAME = 219"
definition TOKEN_BYTEA :: TokenType where [tok_defs]: "TOKEN_BYTEA = 220"
definition TOKEN_SMALLINT :: TokenType where [tok_defs]: "TOKEN_SMALLINT = 221"
definition TOKEN_INTEGER :: TokenType where [tok_defs]: "TOKEN_INTEGER = 222"
definition TOKEN_BIGINT :: TokenType where [tok_defs]: "TOKEN_BIGINT = 223"
definition TOKEN_REAL :: TokenType where [tok_defs]: "TOKEN_REAL = 224"
definition TOKEN_DOUBLE_P :: TokenType where [tok_defs]: "TOKEN_DOUBLE_P = 225"
definition TOKEN_PRECISION :: TokenType where [tok_defs]: "TOKEN_PRECISION = 226"
definition TOKEN_DECIMAL_P :: TokenType where [tok_defs]: "TOKEN_DECIMAL_P = 227"
definition TOKEN_NUMERIC :: TokenType where [tok_defs]: "TOKEN_NUMERIC = 228"
definition TOKEN_MONEY :: TokenType where [tok_defs]: "TOKEN_MONEY = 229"
definition TOKEN_DATE :: TokenType where [tok_defs]: "TOKEN_DATE = 230"
definition TOKEN_TIME :: TokenType where [tok_defs]: "TOKEN_TIME = 231"
definition TOKEN_TIMESTAMP :: TokenType where [tok_defs]: "TOKEN_TIMESTAMP = 232"
definition TOKEN_TIMESTAMPTZ :: TokenType where [tok_defs]: "TOKEN_TIMESTAMPTZ = 233"
definition TOKEN_INTERVAL :: TokenType where [tok_defs]: "TOKEN_INTERVAL = 234"
definition TOKEN_TIMETZ :: TokenType where [tok_defs]: "TOKEN_TIMETZ = 235"
definition TOKEN_BIT :: TokenType where [tok_defs]: "TOKEN_BIT = 236"
definition TOKEN_VARBIT :: TokenType where [tok_defs]: "TOKEN_VARBIT = 237"
definition TOKEN_INET :: TokenType where [tok_defs]: "TOKEN_INET = 238"
definition TOKEN_CIDR :: TokenType where [tok_defs]: "TOKEN_CIDR = 239"
definition TOKEN_MACADDR :: TokenType where [tok_defs]: "TOKEN_MACADDR = 240"
definition TOKEN_MACADDR8 :: TokenType where [tok_defs]: "TOKEN_MACADDR8 = 241"
definition TOKEN_UUID :: TokenType where [tok_defs]: "TOKEN_UUID = 242"
definition TOKEN_JSON :: TokenType where [tok_defs]: "TOKEN_JSON = 243"
definition TOKEN_JSONB :: TokenType where [tok_defs]: "TOKEN_JSONB = 244"
definition TOKEN_XML :: TokenType where [tok_defs]: "TOKEN_XML = 245"
definition TOKEN_POINT :: TokenType where [tok_defs]: "TOKEN_POINT = 246"
definition TOKEN_LINE :: TokenType where [tok_defs]: "TOKEN_LINE = 247"
definition TOKEN_LSEG :: TokenType where [tok_defs]: "TOKEN_LSEG = 248"
definition TOKEN_BOX :: TokenType where [tok_defs]: "TOKEN_BOX = 249"
definition TOKEN_PATH :: TokenType where [tok_defs]: "TOKEN_PATH = 250"
definition TOKEN_POLYGON :: TokenType where [tok_defs]: "TOKEN_POLYGON = 251"
definition TOKEN_CIRCLE :: TokenType where [tok_defs]: "TOKEN_CIRCLE = 252"
definition TOKEN_ARRAY :: TokenType where [tok_defs]: "TOKEN_ARRAY = 253"
definition TOKEN_INT2VECTOR :: TokenType where [tok_defs]: "TOKEN_INT2VECTOR = 254"
definition TOKEN_OIDVECTOR :: TokenType where [tok_defs]: "TOKEN_OIDVECTOR = 255"
definition TOKEN_TSVECTOR :: TokenType where [tok_defs]: "TOKEN_TSVECTOR = 256"
definition TOKEN_TSQUERY :: TokenType where [tok_defs]: "TOKEN_TSQUERY = 257"
definition TOKEN_REGPROC :: TokenType where [tok_defs]: "TOKEN_REGPROC = 258"
definition TOKEN_REGPROCEDURE :: TokenType where [tok_defs]: "TOKEN_REGPROCEDURE = 259"
definition TOKEN_REGOPER :: TokenType where [tok_defs]: "TOKEN_REGOPER = 260"
definition TOKEN_REGOPERATOR :: TokenType where [tok_defs]: "TOKEN_REGOPERATOR = 261"
definition TOKEN_REGCLASS :: TokenType where [tok_defs]: "TOKEN_REGCLASS = 262"
definition TOKEN_REGTYPE :: TokenType where [tok_defs]: "TOKEN_REGTYPE = 263"
definition TOKEN_REGROLE :: TokenType where [tok_defs]: "TOKEN_REGROLE = 264"
definition TOKEN_REGNAMESPACE :: TokenType where [tok_defs]: "TOKEN_REGNAMESPACE = 265"
definition TOKEN_REGCONFIG :: TokenType where [tok_defs]: "TOKEN_REGCONFIG = 266"
definition TOKEN_REGDICTIONARY :: TokenType where [tok_defs]: "TOKEN_REGDICTIONARY = 267"
definition TOKEN_MAX :: TokenType where [tok_defs]: "TOKEN_MAX = 268"

text \<open>
  Modelled from the spec: the enumerators \<^verbatim>\<open>TOKEN_COALESCE_EXPR\<close>, \<^verbatim>\<open>TOKEN_COLUMN_REF\<close>,
  \<^verbatim>\<open>TOKEN_FOR\<close> and \<^verbatim>\<open>TOKEN_INTO_CLAUSE\<close>, which the keyword table of sql_parser.c
  names and sql_parser.h does not declare. The spec has the table map every spelling to
  a reserved-word kind, so they are four further kinds, numbered after \<^verbatim>\<open>TOKEN_MAX\<close>.
\<close>

definition TOKEN_COALESCE_EXPR :: TokenType where [tok_defs]: "TOKEN_COALESCE_EXPR = 269"
definition TOKEN_COLUMN_REF :: TokenType where [tok_defs]: "TOKEN_COLUMN_REF = 270"
definition TOKEN_FOR :: TokenType where [tok_defs]: "TOKEN_FOR = 271"
definition TOKEN_INTO_CLAUSE :: TokenType where [tok_defs]: "TOKEN_INTO_CLAUSE = 272"

section \<open>Bytes and the C library\<close>

text \<open>
  A \<^verbatim>\<open>char\<close> is a byte, \<^typ>\<open>char\<close>; a buffer of bytes is a \<^typ>\<open>string\<close>. The
  classifiers of sql_parser.c compare a byte with ASCII letters and digits only, so they
  give the same answer whether \<^verbatim>\<open>char\<close> is signed or not: a byte above 127 is in no class.
\<close>

definition NUL :: char where "NUL = CHR 0x00"
definition newline :: char where "newline = CHR 0x0A"
definition squote :: char where "squote = CHR 0x27"
definition dquote :: char where "dquote = CHR 0x22"
definition backslash :: char where "backslash = CHR 0x5C"

definition code :: "char \<Rightarrow> nat" where
  "code c = of_char c"

definition is_digit :: "char \<Rightarrow> bool" where
  "is_digit c \<longleftrightarrow> code (CHR ''0'') \<le> code c \<and> code c \<le> code (CHR ''9'')"

definition is_alpha :: "char \<Rightarrow> bool" where
  "is_alpha c \<longleftrightarrow> (code (CHR ''a'') \<le> code c \<and> code c \<le> code (CHR ''z''))
      \<or> (code (CHR ''A'') \<le> code c \<and> code c \<le> code (CHR ''Z'')) \<or> c = CHR ''_''"

definition is_alnum :: "char \<Rightarrow> bool" where
  "is_alnum c \<longleftrightarrow> is_alpha c \<or> (code (CHR ''0'') \<le> code c \<and> code c \<le> code (CHR ''9''))"

definition is_space :: "char \<Rightarrow> bool" where
  "is_space c \<longleftrightarrow> c = CHR '' '' \<or> c = CHR 0x09 \<or> c = newline \<or> c = CHR 0x0D \<or> c = CHR 0x0C"

text \<open>
  The C library, as the C standard and POSIX describe it in the C locale. A C string is
  the bytes before its terminating NUL: \<open>c_head\<close> reads the first byte of one, the
  terminator when no byte is left.
\<close>

definition tolower :: "char \<Rightarrow> char" where
  "tolower c = (if code (CHR ''A'') \<le> code c \<and> code c \<le> code (CHR ''Z'')
                then char_of (code c + 32) else c)"

fun c_head :: "string \<Rightarrow> char" where
  "c_head [] = NUL"
| "c_head (c # _) = c"

text \<open>
  \<^verbatim>\<open>strncasecmp(s1, s2, n)\<close> compares at most \<open>n\<close> bytes, lower-cased, and stops at the
  first difference or at a terminator; the result is the difference of the two bytes
  that differ, zero when none does.
\<close>

fun strncasecmp :: "string \<Rightarrow> string \<Rightarrow> nat \<Rightarrow> int" where
  "strncasecmp s1 s2 0 = 0"
| "strncasecmp s1 s2 (Suc n) =
     (let c1 = tolower (c_head s1); c2 = tolower (c_head s2)
      in if c1 \<noteq> c2 then int (code c1) - int (code c2)
         else if c1 = NUL then 0
         else strncasecmp (tl s1) (tl s2) n)"

definition strlen :: "string \<Rightarrow> nat" where
  "strlen s = length (takeWhile (\<lambda>c. c \<noteq> NUL) s)"

text \<open>
  \<^verbatim>\<open>strtoll(s, NULL, 10)\<close> on a text that starts with a digit, which is all the lexer
  passes: the value of the leading digit run, and \<^verbatim>\<open>LLONG_MAX\<close> when that value does not
  fit a 64-bit signed integer.
\<close>

definition LLONG_MAX :: int where
  "LLONG_MAX = 2 ^ 63 - 1"

definition digit_val :: "char \<Rightarrow> int" where
  "digit_val c = int (code c) - int (code (CHR ''0''))"

definition decimal :: "string \<Rightarrow> int" where
  "decimal ds = foldl (\<lambda>acc c. 10 * acc + digit_val c) 0 ds"

definition strtoll :: "string \<Rightarrow> int" where
  "strtoll s = min (decimal (takeWhile is_digit s)) LLONG_MAX"

section \<open>The keyword table\<close>

type_synonym KeywordEntry = "string \<times> TokenType"

text \<open>The array \<^verbatim>\<open>keywords\<close> of sql_parser.c, in its order.\<close>

definition keyword_table :: "KeywordEntry list" where
  "keyword_table = [
    (''action'', TOKEN_ACTION),
    (''all'', TOKEN_ALL),
    (''alter'', TOKEN_ALTER),
    (''analyze'', TOKEN_ANALYZE_P),
    (''and'', TOKEN_AND),
    (''any'', TOKEN_ANY),
    (''array'', TOKEN_ARRAY),
    (''as'', TOKEN_AS),
    (''asc'', TOKEN_ASC),
    (''begin'', TOKEN_BEGIN_P),
    (''between'', TOKEN_BETWEEN),
    (''bigint'', TOKEN_BIGINT),
    (''bit'', TOKEN_BIT),
    (''boolean'', TOKEN_BOOLEAN),
    (''both'', TOKEN_BOTH),
    (''by'', TOKEN_BY),
    (''cascade'', TOKEN_CASCADE),
    (''case'', TOKEN_CASE),
    (''cast'', TOKEN_CAST),
    (''char'', TOKEN_CHAR_P),
    (''character'', TOKEN_CHARACTER),
    (''check'', TOKEN_CHECK),
    (''cluster'', TOKEN_CLUSTER),
    (''coalesce'', TOKEN_COALESCE_EXPR),
    (''collate'', TOKEN_COLLATE),
    (''column'', TOKEN_COLUMN_REF),
    (''commit'', TOKEN_COMMIT),
    (''committed'', TOKEN_COMMITTED),
    (''constraint'', TOKEN_CONSTRAINT),
    (''copy'', TOKEN_COPY),
    (''create'', TOKEN_CREATE),
    (''cross'', TOKEN_CROSS),
    (''current'', TOKEN_CURRENT_P),
    (''database'', TOKEN_DATABASE),
    (''date'', TOKEN_DATE),
    (''decimal'', TOKEN_DECIMAL_P),
    (''default'', TOKEN_DEFAULT),
    (''deferrable'', TOKEN_DEFERRABLE),
    (''deferred'', TOKEN_DEFERRED),
    (''delete'', TOKEN_DELETE),
    (''desc'', TOKEN_DESC),
    (''distinct'', TOKEN_DISTINCT),
    (''double'', TOKEN_DOUBLE_P),
    (''drop'', TOKEN_DROP),
    (''else'', TOKEN_ELSE),
    (''end'', TOKEN_END_P),
    (''except'', TOKEN_EXCEPT),
    (''execute'', TOKEN_EXECUTE),
    (''exists'', TOKEN_EXISTS),
    (''explain'', TOKEN_EXPLAIN),
    (''extract'', TOKEN_EXTRACT),
    (''false'', TOKEN_FALSE_P),
    (''following'', TOKEN_FOLLOWING),
    (''for'', TOKEN_FOR),
    (''foreign'', TOKEN_FOREIGN),
    (''from'', TOKEN_FROM),
    (''full'', TOKEN_FULL_P),
    (''function'', TOKEN_FUNCTION),
    (''grant'', TOKEN_GRANT),
    (''group'', TOKEN_GROUP_P),
    (''having'', TOKEN_HAVING),
    (''if'', TOKEN_IF_P),
    (''ilike'', TOKEN_ILIKE),
    (''immediate'', TOKEN_IMMEDIATE),
    (''in'', TOKEN_IN),
    (''index'', TOKEN_INDEX),
    (''initially'', TOKEN_INITIALLY),
    (''inner'', TOKEN_INNER_P),
    (''insert'', TOKEN_INSERT),
    (''integer'', TOKEN_INTEGER),
    (''intersect'', TOKEN_INTERSECT),
    (''interval'', TOKEN_INTERVAL),
    (''into'', TOKEN_INTO_CLAUSE),
    (''is'', TOKEN_IS),
    (''join'', TOKEN_JOIN),
    (''json'', TOKEN_JSON),
    (''jsonb'', TOKEN_JSONB),
    (''key'', TOKEN_KEY),
    (''leading'', TOKEN_LEADING),
    (''left'', TOKEN_LEFT),
    (''level'', TOKEN_LEVEL),
    (''like'', TOKEN_LIKE),
    (''limit'', TOKEN_LIMIT),
    (''local'', TOKEN_LOCAL),
    (''match'', TOKEN_MATCH),
    (''natural'', TOKEN_NATURAL),
    (''no'', TOKEN_NO),
    (''not'', TOKEN_NOT),
    (''null'', TOKEN_NULL_P),
    (''numeric'', TOKEN_NUMERIC),
    (''offset'', TOKEN_OFFSET),
    (''on'', TOKEN_ON),
    (''only'', TOKEN_ONLY),
    (''or'', TOKEN_OR),
    (''order'', TOKEN_ORDER),
    (''outer'', TOKEN_OUTER_P),
    (''over'', TOKEN_OVER),
    (''overlay'', TOKEN_OVERLAY),
    (''partial'', TOKEN_PARTIAL),
    (''partition'', TOKEN_PARTITION),
    (''position'', TOKEN_POSITION),
    (''preceding'', TOKEN_PRECEDING),
    (''precision'', TOKEN_PRECISION),
    (''primary'', TOKEN_PRIMARY),
    (''procedure'', TOKEN_PROCEDURE),
    (''public'', TOKEN_PUBLIC),
    (''range'', TOKEN_RANGE),
    (''read'', TOKEN_READ),
    (''real'', TOKEN_REAL),
    (''recursive'', TOKEN_RECURSIVE),
    (''references'', TOKEN_REFERENCES),
    (''reindex'', TOKEN_REINDEX),
    (''restrict'', TOKEN_RESTRICT),
    (''revoke'', TOKEN_REVOKE),
    (''right'', TOKEN_RIGHT),
    (''role'', TOKEN_ROLE),
    (''rollback'', TOKEN_ROLLBACK),
    (''row'', TOKEN_ROW),
    (''rows'', TOKEN_ROWS),
    (''schema'', TOKEN_SCHEMA),
    (''select'', TOKEN_SELECT),
    (''serializable'', TOKEN_SERIALIZABLE),
    (''set'', TOKEN_SET),
    (''similar'', TOKEN_SIMILAR),
    (''smallint'', TOKEN_SMALLINT),
    (''some'', TOKEN_SOME),
    (''start'', TOKEN_START),
    (''substring'', TOKEN_SUBSTRING),
    (''table'', TOKEN_TABLE),
    (''temp'', TOKEN_TEMP),
    (''temporary'', TOKEN_TEMPORARY),
    (''text'', TOKEN_TEXT),
    (''then'', TOKEN_THEN),
    (''time'', TOKEN_TIME),
    (''timestamp'', TOKEN_TIMESTAMP),
    (''trailing'', TOKEN_TRAILING),
    (''transaction'', TOKEN_TRANSACTION),
    (''trigger'', TOKEN_TRIGGER),
    (''trim'', TOKEN_TRIM),
    (''true'', TOKEN_TRUE_P),
    (''truncate'', TOKEN_TRUNCATE),
    (''unbounded'', TOKEN_UNBOUNDED),
    (''uncommitted'', TOKEN_UNCOMMITTED),
    (''union'', TOKEN_UNION),
    (''unique'', TOKEN_UNIQUE),
    (''update'', TOKEN_UPDATE),
    (''user'', TOKEN_USER),
    (''using'', TOKEN_USING),
    (''vacuum'', TOKEN_VACUUM),
    (''varchar'', TOKEN_VARCHAR),
    (''view'', TOKEN_VIEW),
    (''when'', TOKEN_WHEN),
    (''where'', TOKEN_WHERE),
    (''window'', TOKEN_WINDOW),
    (''with'', TOKEN_WITH),
    (''work'', TOKEN_WORK),
    (''write'', TOKEN_WRITE)]"

definition num_keywords :: int where
  "num_keywords = int (length keyword_table)"

text \<open>
  The binary search of \<^verbatim>\<open>lookup_keyword\<close>. \<open>left\<close>, \<open>right\<close> and \<open>mid\<close> are C \<^verbatim>\<open>int\<close>s;
  inside the loop \<open>0 \<le> left \<le> right < num_keywords\<close>, so that the division is exact
  integer halving and \<open>mid\<close> indexes the table.
\<close>

function lookup_keyword_loop :: "string \<Rightarrow> nat \<Rightarrow> int \<Rightarrow> int \<Rightarrow> TokenType" where
  "lookup_keyword_loop str len left right =
     (if left \<le> right then
        let mid = (left + right) div 2;
            cmp = strncasecmp str (fst (keyword_table ! nat mid)) len
        in if cmp = 0 \<and> strlen (fst (keyword_table ! nat mid)) = len then snd (keyword_table ! nat mid)
           else if cmp < 0 then lookup_keyword_loop str len left (mid - 1)
           else lookup_keyword_loop str len (mid + 1) right
      else TOKEN_IDENT)"
  by pat_completeness auto
termination
  by (relation "measure (\<lambda>(str, len, left, right). nat (right - left + 1))") auto

declare lookup_keyword_loop.simps [simp del]

definition lookup_keyword :: "string \<Rightarrow> nat \<Rightarrow> TokenType" where
  "lookup_keyword str len = lookup_keyword_loop str len 0 (num_keywords - 1)"

section \<open>Tokens and the lexer state\<close>

text \<open>
  The structs of sql_parser.h. The fields of \<^verbatim>\<open>Location\<close>, and the line and the column of
  the lexer, are C \<^verbatim>\<open>int\<close>s of 32 bits: integers between \<open>- 2^31\<close> and \<open>2^31 - 1\<close>.
  \<open>int32 x\<close> is the value such a field holds when the result \<open>x\<close> is stored in it: \<open>x\<close>
  itself when it is in the range, and \<open>x\<close> reduced modulo \<open>2^32\<close> into the range otherwise,
  as two's-complement hardware does for the conversion of an out-of-range \<^verbatim>\<open>size_t\<close> and
  for \<^verbatim>\<open>++\<close> at \<^verbatim>\<open>INT_MAX\<close> (the first is implementation-defined and the second
  undefined in C). The position and the lengths are \<^verbatim>\<open>size_t\<close>: natural numbers, which
  stay below the size of the buffer and cannot overflow.
\<close>

definition int32 :: "int \<Rightarrow> int" where
  "int32 x = (x + 2 ^ 31) mod 2 ^ 32 - 2 ^ 31"

record Location =
  loc_line :: int
  loc_column :: int
  offset :: int

text \<open>
  The union \<^verbatim>\<open>Token.data\<close> holds the member written last. A \<^verbatim>\<open>double\<close> is kept as the
  text \<^verbatim>\<open>strtod\<close> is called on: floating-point arithmetic is outside the model.
\<close>

datatype TokenData = ival int | fval_strtod string

text \<open>
  \<^verbatim>\<open>Token.value\<close> is a pointer to a buffer that holds a text and its terminator, or
  \<^verbatim>\<open>NULL\<close>: \<open>tok_value\<close> is the text, a \<^typ>\<open>string option\<close>. \<open>tok_alloc\<close> is not a field
  of the struct: it is the size of the buffer that \<^verbatim>\<open>value\<close> points to, the argument of the
  \<^verbatim>\<open>palloc\<close> that made it (it says nothing while \<^verbatim>\<open>value\<close> is \<^verbatim>\<open>NULL\<close>).
  \<open>token_in_bounds\<close> says that what has been written to the buffer, the text and the
  terminator, lies inside it. A write outside it is undefined behaviour in C: where a
  token is not \<open>token_in_bounds\<close>, the model tells what the scanner wrote and where, and
  not what the program does next.
\<close>

record Token =
  tok_type :: TokenType
  tok_value :: "string option"
  tok_length :: nat
  location :: Location
  data :: TokenData
  tok_alloc :: nat

definition token_in_bounds :: "Token \<Rightarrow> bool" where
  "token_in_bounds t = (case tok_value t of None \<Rightarrow> True | Some v \<Rightarrow> length v + 1 \<le> tok_alloc t)"

text \<open>
  \<^verbatim>\<open>Lexer.input_len\<close> is the number of bytes of \<^verbatim>\<open>Lexer.input\<close>: the buffer and its
  length travel together as one \<^typ>\<open>string\<close>.
\<close>

record Lexer =
  input :: string
  pos :: nat
  line :: int
  column :: int
  current_token :: Token
  has_current :: bool
  error_msg :: "string option"

definition input_len :: "Lexer \<Rightarrow> nat" where
  "input_len lexer = length (input lexer)"

text \<open>\<^verbatim>\<open>palloc0\<close> zeroes the struct, so the token slot of a new lexer is all zero.\<close>

definition zero_token :: Token where
  "zero_token = \<lparr>tok_type = 0, tok_value = None, tok_length = 0,
     location = \<lparr>loc_line = 0, loc_column = 0, offset = 0\<rparr>, data = ival 0,
     tok_alloc = 0\<rparr>"

definition lexer_create :: "string \<Rightarrow> Lexer" where
  "lexer_create inp = \<lparr>input = inp, pos = 0, line = 1, column = 1,
     current_token = zero_token, has_current = False, error_msg = None\<rparr>"

definition lexer_set_error :: "Lexer \<Rightarrow> string \<Rightarrow> Lexer" where
  "lexer_set_error lexer msg = lexer\<lparr>error_msg := Some msg\<rparr>"

definition lexer_error :: "Lexer \<Rightarrow> string option" where
  "lexer_error lexer = error_msg lexer"

section \<open>The character cursor\<close>

definition lexer_peek :: "Lexer \<Rightarrow> char" where
  "lexer_peek lexer = (if pos lexer \<ge> input_len lexer then NUL else input lexer ! pos lexer)"

text \<open>
  \<^verbatim>\<open>lexer_advance\<close> returns the byte it consumes, which is the byte \<open>lexer_peek\<close> reads
  before the call; the function below is its effect on the state.
\<close>

definition lexer_advance :: "Lexer \<Rightarrow> Lexer" where
  "lexer_advance lexer =
     (if pos lexer \<ge> input_len lexer then lexer
      else if input lexer ! pos lexer = newline
      then lexer\<lparr>pos := pos lexer + 1, line := int32 (line lexer + 1), column := 1\<rparr>
      else lexer\<lparr>pos := pos lexer + 1, column := int32 (column lexer + 1)\<rparr>)"

lemma input_lexer_advance [simp]: "input (lexer_advance l) = input l"
  by (simp add: lexer_advance_def)

lemma input_len_lexer_advance [simp]: "input_len (lexer_advance l) = input_len l"
  by (simp add: input_len_def)

lemma pos_lexer_advance:
  "pos (lexer_advance l) = (if pos l < input_len l then pos l + 1 else pos l)"
  by (simp add: lexer_advance_def)

lemma pos_lexer_advance_lt [simp]: "pos l < input_len l \<Longrightarrow> pos (lexer_advance l) = Suc (pos l)"
  by (simp add: pos_lexer_advance)

lemma current_token_lexer_advance [simp]: "current_token (lexer_advance l) = current_token l"
  by (simp add: lexer_advance_def)

lemma has_current_lexer_advance [simp]: "has_current (lexer_advance l) = has_current l"
  by (simp add: lexer_advance_def)

lemma error_msg_lexer_advance [simp]: "error_msg (lexer_advance l) = error_msg l"
  by (simp add: lexer_advance_def)

text \<open>
  Four loops of sql_parser.c have the shape
  \<^verbatim>\<open>while (lexer->pos < lexer->input_len && P(lexer_peek(lexer))) lexer_advance(lexer);\<close>
  for a class \<open>P\<close> of bytes: white space, digits, identifier bytes, and the bytes of a
  line comment.
\<close>

function lexer_advance_while :: "(char \<Rightarrow> bool) \<Rightarrow> Lexer \<Rightarrow> Lexer" where
  "lexer_advance_while P lexer =
     (if pos lexer < input_len lexer \<and> P (lexer_peek lexer)
      then lexer_advance_while P (lexer_advance lexer) else lexer)"
  by pat_completeness auto
termination
  by (relation "measure (\<lambda>(P, l). input_len l - pos l)") auto

declare lexer_advance_while.simps [simp del]

definition lexer_skip_whitespace :: "Lexer \<Rightarrow> Lexer" where
  "lexer_skip_whitespace lexer = lexer_advance_while is_space lexer"

text \<open>The loop of a block comment: it looks for \<^verbatim>\<open>*/\<close> while two bytes are left.\<close>

function lexer_block_comment_loop :: "Lexer \<Rightarrow> Lexer" where
  "lexer_block_comment_loop lexer =
     (if pos lexer + 1 < input_len lexer then
        if lexer_peek lexer = CHR ''*'' \<and> input lexer ! (pos lexer + 1) = CHR ''/''
        then lexer_advance (lexer_advance lexer)
        else lexer_block_comment_loop (lexer_advance lexer)
      else lexer)"
  by pat_completeness auto
termination
  by (relation "measure (\<lambda>l. input_len l - pos l)") auto

declare lexer_block_comment_loop.simps [simp del]

definition lexer_skip_comment :: "Lexer \<Rightarrow> Lexer" where
  "lexer_skip_comment lexer =
     (let c = lexer_peek lexer in
      if c = CHR ''-'' \<and> pos lexer + 1 < input_len lexer
           \<and> input lexer ! (pos lexer + 1) = CHR ''-''
      then lexer_advance_while (\<lambda>c. c \<noteq> newline) (lexer_advance (lexer_advance lexer))
      else if c = CHR ''/'' \<and> pos lexer + 1 < input_len lexer
           \<and> input lexer ! (pos lexer + 1) = CHR ''*''
      then lexer_block_comment_loop (lexer_advance (lexer_advance lexer))
      else lexer)"

lemma input_lexer_advance_while [simp]: "input (lexer_advance_while P l) = input l"
  by (induction P l rule: lexer_advance_while.induct) (subst lexer_advance_while.simps, simp)

lemma input_len_lexer_advance_while [simp]: "input_len (lexer_advance_while P l) = input_len l"
  by (simp add: input_len_def)

lemma current_token_lexer_advance_while [simp]:
  "current_token (lexer_advance_while P l) = current_token l"
  by (induction P l rule: lexer_advance_while.induct) (subst lexer_advance_while.simps, simp)

lemma has_current_lexer_advance_while [simp]:
  "has_current (lexer_advance_while P l) = has_current l"
  by (induction P l rule: lexer_advance_while.induct) (subst lexer_advance_while.simps, simp)

lemma error_msg_lexer_advance_while [simp]:
  "error_msg (lexer_advance_while P l) = error_msg l"
  by (induction P l rule: lexer_advance_while.induct) (subst lexer_advance_while.simps, simp)

lemma pos_lexer_advance_while_ge: "pos l \<le> pos (lexer_advance_while P l)"
proof (induction P l rule: lexer_advance_while.induct)
  case (1 P l)
  show ?case
  proof (cases "pos l < input_len l \<and> P (lexer_peek l)")
    case True
    with 1 have "pos (lexer_advance l) \<le> pos (lexer_advance_while P (lexer_advance l))"
      by simp
    with True show ?thesis
      by (subst lexer_advance_while.simps) simp
  next
    case False
    then show ?thesis
      by (subst lexer_advance_while.simps) auto
  qed
qed

lemma input_lexer_block_comment_loop [simp]: "input (lexer_block_comment_loop l) = input l"
  by (induction l rule: lexer_block_comment_loop.induct)
     (subst lexer_block_comment_loop.simps, simp)

lemma input_len_lexer_block_comment_loop [simp]:
  "input_len (lexer_block_comment_loop l) = input_len l"
  by (simp add: input_len_def)

lemma current_token_lexer_block_comment_loop [simp]:
  "current_token (lexer_block_comment_loop l) = current_token l"
  by (induction l rule: lexer_block_comment_loop.induct)
     (subst lexer_block_comment_loop.simps, simp)

lemma has_current_lexer_block_comment_loop [simp]:
  "has_current (lexer_block_comment_loop l) = has_current l"
  by (induction l rule: lexer_block_comment_loop.induct)
     (subst lexer_block_comment_loop.simps, simp)

lemma error_msg_lexer_block_comment_loop [simp]:
  "error_msg (lexer_block_comment_loop l) = error_msg l"
  by (induction l rule: lexer_block_comment_loop.induct)
     (subst lexer_block_comment_loop.simps, simp)

lemma pos_lexer_block_comment_loop_ge: "pos l \<le> pos (lexer_block_comment_loop l)"
proof (induction l rule: lexer_block_comment_loop.induct)
  case (1 l)
  show ?case
  proof (cases "pos l + 1 < input_len l")
    case True
    note lt = this
    show ?thesis
    proof (cases "lexer_peek l = CHR ''*'' \<and> input l ! (pos l + 1) = CHR ''/''")
      case True
      with lt show ?thesis
        by (subst lexer_block_comment_loop.simps) simp
    next
      case False
      with lt 1 have "pos (lexer_advance l) \<le> pos (lexer_block_comment_loop (lexer_advance l))"
        by blast
      with lt False show ?thesis
        by (subst lexer_block_comment_loop.simps) auto
    qed
  next
    case False
    then show ?thesis
      by (subst lexer_block_comment_loop.simps) simp
  qed
qed

lemma input_lexer_skip_whitespace [simp]: "input (lexer_skip_whitespace l) = input l"
  by (simp add: lexer_skip_whitespace_def)

lemma input_len_lexer_skip_whitespace [simp]:
  "input_len (lexer_skip_whitespace l) = input_len l"
  by (simp add: input_len_def)

lemma input_lexer_skip_comment [simp]: "input (lexer_skip_comment l) = input l"
  by (simp add: lexer_skip_comment_def Let_def)

lemma input_len_lexer_skip_comment [simp]: "input_len (lexer_skip_comment l) = input_len l"
  by (simp add: input_len_def)

lemma current_token_lexer_skip_comment [simp]:
  "current_token (lexer_skip_comment l) = current_token l"
  by (simp add: lexer_skip_comment_def Let_def)

lemma has_current_lexer_skip_comment [simp]:
  "has_current (lexer_skip_comment l) = has_current l"
  by (simp add: lexer_skip_comment_def Let_def)

lemma error_msg_lexer_skip_comment [simp]:
  "error_msg (lexer_skip_comment l) = error_msg l"
  by (simp add: lexer_skip_comment_def Let_def)

text \<open>A comment opener is at least two bytes, and skipping the comment consumes them.\<close>

definition at_comment :: "Lexer \<Rightarrow> bool" where
  "at_comment lexer \<longleftrightarrow>
     (lexer_peek lexer = CHR ''-'' \<and> pos lexer + 1 < input_len lexer
        \<and> input lexer ! (pos lexer + 1) = CHR ''-'')
     \<or> (lexer_peek lexer = CHR ''/'' \<and> pos lexer + 1 < input_len lexer
        \<and> input lexer ! (pos lexer + 1) = CHR ''*'')"

lemma pos_lexer_skip_comment_gt:
  assumes "at_comment l"
  shows "pos l < pos (lexer_skip_comment l)"
proof -
  from assms have lt: "pos l + 1 < input_len l"
    by (auto simp: at_comment_def)
  then have two: "pos (lexer_advance (lexer_advance l)) = pos l + 2"
    by simp
  have "pos (lexer_advance (lexer_advance l))
          \<le> pos (lexer_advance_while (\<lambda>c. c \<noteq> newline) (lexer_advance (lexer_advance l)))"
    by (rule pos_lexer_advance_while_ge)
  moreover have "pos (lexer_advance (lexer_advance l))
          \<le> pos (lexer_block_comment_loop (lexer_advance (lexer_advance l)))"
    by (rule pos_lexer_block_comment_loop_ge)
  ultimately show ?thesis
    using assms two by (auto simp: lexer_skip_comment_def at_comment_def Let_def)
qed

text \<open>
  The loop at the head of \<^verbatim>\<open>lexer_next_token\<close>: white space and comments in turn, until
  the input ends or a byte that opens neither is reached.
\<close>

function lexer_skip_loop :: "Lexer \<Rightarrow> Lexer" where
  "lexer_skip_loop lexer =
     (if pos lexer < input_len lexer then
        let l1 = lexer_skip_whitespace lexer in
        if pos l1 \<ge> input_len l1 then l1
        else if at_comment l1 then lexer_skip_loop (lexer_skip_comment l1)
        else l1
      else lexer)"
  by pat_completeness auto
termination
proof (relation "measure (\<lambda>l. input_len l - pos l)")
  show "wf (measure (\<lambda>l. input_len l - pos l))"
    by simp
next
  fix lexer l1 :: Lexer
  assume a: "pos lexer < input_len lexer" "l1 = lexer_skip_whitespace lexer"
    "\<not> input_len l1 \<le> pos l1" "at_comment l1"
  have "pos lexer \<le> pos l1"
    using a(2) by (simp add: lexer_skip_whitespace_def pos_lexer_advance_while_ge)
  moreover have "pos l1 < pos (lexer_skip_comment l1)"
    using a(4) by (rule pos_lexer_skip_comment_gt)
  ultimately show "(lexer_skip_comment l1, lexer) \<in> measure (\<lambda>l. input_len l - pos l)"
    using a by simp
qed

declare lexer_skip_loop.simps [simp del]

section \<open>The scanners\<close>

text \<open>
  Every scanner is called with \<^verbatim>\<open>&lexer->current_token\<close> as its token, so it writes the
  token slot of the lexer. A scanner returns its success flag and the lexer it leaves.

  \<open>slice buf start len\<close> is the \<open>len\<close> bytes that \<^verbatim>\<open>memcpy(dst, buf + start, len)\<close> copies.
  \<open>token_palloc lexer n\<close> is \<^verbatim>\<open>token->value = palloc(n)\<close>; \<open>token_set_text\<close> is the
  writing of a text and its terminator into the buffer and the store of
  \<^verbatim>\<open>token->length\<close>. \<open>token_copy\<close> is the allocation of \<open>len + 1\<close> bytes, the copy, the
  terminator and the store of the length, as the string, number and identifier scanners
  do them.
\<close>

definition slice :: "string \<Rightarrow> nat \<Rightarrow> nat \<Rightarrow> string" where
  "slice buf start len = take len (drop start buf)"

definition token_set_text :: "Lexer \<Rightarrow> string \<Rightarrow> nat \<Rightarrow> Lexer" where
  "token_set_text lexer v len =
     lexer\<lparr>current_token := (current_token lexer)\<lparr>tok_value := Some v, tok_length := len\<rparr>\<rparr>"

definition token_palloc :: "Lexer \<Rightarrow> nat \<Rightarrow> Lexer" where
  "token_palloc lexer n = lexer\<lparr>current_token := (current_token lexer)\<lparr>tok_alloc := n\<rparr>\<rparr>"

definition token_set_type :: "Lexer \<Rightarrow> TokenType \<Rightarrow> Lexer" where
  "token_set_type lexer t = lexer\<lparr>current_token := (current_token lexer)\<lparr>tok_type := t\<rparr>\<rparr>"

definition token_set_data :: "Lexer \<Rightarrow> TokenData \<Rightarrow> Lexer" where
  "token_set_data lexer d = lexer\<lparr>current_token := (current_token lexer)\<lparr>data := d\<rparr>\<rparr>"

definition token_copy :: "Lexer \<Rightarrow> nat \<Rightarrow> nat \<Rightarrow> Lexer" where
  "token_copy lexer start len =
     token_set_text (token_palloc lexer (len + 1)) (slice (input lexer) start len) len"

subsection \<open>Strings\<close>

function lexer_scan_string_loop :: "char \<Rightarrow> nat \<Rightarrow> Lexer \<Rightarrow> bool \<times> Lexer" where
  "lexer_scan_string_loop quote start lexer =
     (if pos lexer < input_len lexer then
        let c = lexer_peek lexer in
        if c = quote then
          if pos lexer + 1 < input_len lexer \<and> input lexer ! (pos lexer + 1) = quote
          then lexer_scan_string_loop quote start (lexer_advance (lexer_advance lexer))
          else (True, lexer_advance (token_copy lexer start (pos lexer - start)))
        else if c = backslash then
          let l1 = lexer_advance lexer
          in lexer_scan_string_loop quote start
               (if pos l1 < input_len l1 then lexer_advance l1 else l1)
        else lexer_scan_string_loop quote start (lexer_advance lexer)
      else (False, lexer_set_error lexer ''unterminated string literal''))"
  by pat_completeness auto
termination
  by (relation "measure (\<lambda>(q, s, l). input_len l - pos l)") (auto simp: pos_lexer_advance)

declare lexer_scan_string_loop.simps [simp del]

definition lexer_scan_string :: "Lexer \<Rightarrow> bool \<times> Lexer" where
  "lexer_scan_string lexer =
     (let quote = lexer_peek lexer;
          l1 = lexer_advance lexer;
          start = pos l1
      in lexer_scan_string_loop quote start l1)"

subsection \<open>Numbers\<close>

text \<open>
  \<open>lexer_finish_number\<close> is the tail of \<^verbatim>\<open>lexer_scan_number\<close>, from the computation of
  \<open>len\<close> on; \<open>is_float\<close> is \<^verbatim>\<open>has_dot || has_exp\<close>.
\<close>

definition lexer_finish_number :: "nat \<Rightarrow> bool \<Rightarrow> Lexer \<Rightarrow> bool \<times> Lexer" where
  "lexer_finish_number start is_float lexer =
     (let len = pos lexer - start;
          l1 = token_copy lexer start len;
          v = slice (input lexer) start len
      in if is_float
         then (True, token_set_data (token_set_type l1 TOKEN_FCONST) (fval_strtod v))
         else (True, token_set_data (token_set_type l1 TOKEN_ICONST) (ival (strtoll v))))"

definition lexer_scan_number :: "Lexer \<Rightarrow> bool \<times> Lexer" where
  "lexer_scan_number lexer =
     (let start = pos lexer;
          l1 = lexer_advance_while is_digit lexer;
          has_dot = (pos l1 < input_len l1 \<and> lexer_peek l1 = CHR ''.''
                      \<and> pos l1 + 1 < input_len l1 \<and> is_digit (input l1 ! (pos l1 + 1)));
          l2 = (if has_dot then lexer_advance_while is_digit (lexer_advance l1) else l1);
          has_exp = (pos l2 < input_len l2
                      \<and> (lexer_peek l2 = CHR ''e'' \<or> lexer_peek l2 = CHR ''E''))
      in if has_exp then
           let l3 = lexer_advance l2;
               l4 = (if pos l3 < input_len l3
                        \<and> (lexer_peek l3 = CHR ''+'' \<or> lexer_peek l3 = CHR ''-'')
                     then lexer_advance l3 else l3)
           in if pos l4 \<ge> input_len l4 \<or> \<not> is_digit (lexer_peek l4)
              then (False, lexer_set_error l4 ''invalid number format'')
              else lexer_finish_number start True (lexer_advance_while is_digit l4)
         else lexer_finish_number start has_dot l2)"

subsection \<open>Identifiers and keywords\<close>

definition lexer_scan_identifier :: "Lexer \<Rightarrow> bool \<times> Lexer" where
  "lexer_scan_identifier lexer =
     (let start = pos lexer in
      if \<not> is_alpha (lexer_peek lexer) then (False, lexer_set_error lexer ''invalid identifier'')
      else
        let l1 = lexer_advance_while is_alnum (lexer_advance lexer);
            len = pos l1 - start;
            l2 = token_copy l1 start len
        in (True, token_set_type l2 (lookup_keyword (slice (input l1) start len) len)))"

subsection \<open>Operators and punctuation\<close>

text \<open>
  \<^verbatim>\<open>lexer_scan_operator\<close> first stores the one-byte text of the token and consumes the
  byte; each case of its switch then sets the kind, and a longer operator overwrites
  the text and consumes the bytes that follow. \<open>op1\<close>, \<open>op2\<close> and \<open>op3\<close> are the three
  shapes the cases have: a one-byte token, a second byte \<open>c2\<close>, a second and a third.
  The buffer is \<^verbatim>\<open>palloc(3)\<close>, which its comment sizes as max 2 chars + null terminator:
  \<open>op3\<close> writes three bytes and the terminator, \<^verbatim>\<open>value[3]\<close>, one byte past its end, and
  leaves a token that is not \<open>token_in_bounds\<close>.
\<close>

definition op1 :: "TokenType \<Rightarrow> Lexer \<Rightarrow> bool \<times> Lexer" where
  "op1 t lexer = (True, token_set_type lexer t)"

definition op2 :: "TokenType \<Rightarrow> char \<Rightarrow> char \<Rightarrow> Lexer \<Rightarrow> bool \<times> Lexer" where
  "op2 t c c2 lexer =
     (True, lexer_advance (token_set_text (token_set_type lexer t) [c, c2] 2))"

definition op3 :: "TokenType \<Rightarrow> char \<Rightarrow> char \<Rightarrow> char \<Rightarrow> Lexer \<Rightarrow> bool \<times> Lexer" where
  "op3 t c c2 c3 lexer =
     (True, lexer_advance (lexer_advance
        (token_set_text (token_set_type lexer t) [c, c2, c3] 3)))"

text \<open>The test for the third byte of \<^verbatim>\<open>->>\<close>, \<^verbatim>\<open>#>>\<close> and \<^verbatim>\<open>!~*\<close>, made after the first
  byte is consumed.\<close>

definition third_is :: "Lexer \<Rightarrow> char \<Rightarrow> bool" where
  "third_is lexer c3 \<longleftrightarrow>
     pos lexer + 1 < input_len lexer \<and> input lexer ! (pos lexer + 1) = c3"

text \<open>The case of \<^verbatim>\<open>$\<close>: a parameter marker, when a digit follows.\<close>

definition lexer_scan_param :: "char \<Rightarrow> Lexer \<Rightarrow> bool \<times> Lexer" where
  "lexer_scan_param next lexer =
     (if is_digit next then
        let start = pos lexer;
            l1 = lexer_advance_while is_digit lexer;
            len = pos l1 - start + 1;
            v = CHR ''$'' # slice (input l1) start (len - 1);
            l2 = token_set_type (token_set_text (token_palloc l1 (len + 1)) v len) TOKEN_PARAM
        in (True, token_set_data l2 (ival (strtoll (tl v))))
      else (False, lexer_set_error lexer ''invalid parameter marker''))"

definition lexer_scan_operator :: "Lexer \<Rightarrow> bool \<times> Lexer" where
  "lexer_scan_operator lexer =
     (let c = lexer_peek lexer;
          next = (if pos lexer + 1 < input_len lexer
                  then input lexer ! (pos lexer + 1) else NUL);
          l = lexer_advance (token_set_text (token_palloc lexer 3) [c] 1)
      in if c = CHR ''('' then op1 TOKEN_LPAREN l
         else if c = CHR '')'' then op1 TOKEN_RPAREN l
         else if c = CHR ''['' then op1 TOKEN_LBRACKET l
         else if c = CHR '']'' then op1 TOKEN_RBRACKET l
         else if c = CHR ''{'' then op1 TOKEN_LBRACE l
         else if c = CHR ''}'' then op1 TOKEN_RBRACE l
         else if c = CHR '','' then op1 TOKEN_COMMA l
         else if c = CHR '';'' then op1 TOKEN_SEMICOLON l
         else if c = CHR ''.'' then op1 TOKEN_DOT l
         else if c = CHR ''+'' then op1 TOKEN_PLUS l
         else if c = CHR ''-'' then
           (if next = CHR ''>'' then
              (if third_is l (CHR ''>'')
               then op3 TOKEN_JSON_EXTRACT_TEXT c (CHR ''>'') (CHR ''>'') l
               else op2 TOKEN_JSON_EXTRACT c (CHR ''>'') l)
            else op1 TOKEN_MINUS l)
         else if c = CHR ''*'' then op1 TOKEN_MULTIPLY l
         else if c = CHR ''/'' then op1 TOKEN_DIVIDE l
         else if c = CHR ''%'' then op1 TOKEN_MODULO l
         else if c = CHR ''^'' then op1 TOKEN_POWER l
         else if c = CHR ''<'' then
           (if next = CHR ''='' then op2 TOKEN_LE c (CHR ''='') l
            else if next = CHR ''>'' then op2 TOKEN_NE c (CHR ''>'') l
            else if next = CHR ''<'' then op2 TOKEN_LSHIFT c (CHR ''<'') l
            else op1 TOKEN_LT l)
         else if c = CHR ''>'' then
           (if next = CHR ''='' then op2 TOKEN_GE c (CHR ''='') l
            else if next = CHR ''>'' then op2 TOKEN_RSHIFT c (CHR ''>'') l
            else op1 TOKEN_GT l)
         else if c = CHR ''='' then op1 TOKEN_EQ l
         else if c = CHR ''!'' then
           (if next = CHR ''='' then op2 TOKEN_NE c (CHR ''='') l
            else if next = CHR ''~'' then
              (if third_is l (CHR ''*'')
               then op3 TOKEN_REGEX_INMATCH c (CHR ''~'') (CHR ''*'') l
               else op2 TOKEN_REGEX_NMATCH c (CHR ''~'') l)
            else (False, lexer_set_error l (''unexpected character '' @ [squote, CHR ''!'', squote])))
         else if c = CHR ''|'' then
           (if next = CHR ''|'' then op2 TOKEN_CONCAT c (CHR ''|'') l
            else op1 TOKEN_BITOR l)
         else if c = CHR ''&'' then op1 TOKEN_BITAND l
         else if c = CHR ''#'' then
           (if next = CHR ''>'' then
              (if third_is l (CHR ''>'')
               then op3 TOKEN_JSON_PATH_TEXT c (CHR ''>'') (CHR ''>'') l
               else op2 TOKEN_JSON_PATH c (CHR ''>'') l)
            else op1 TOKEN_BITXOR l)
         else if c = CHR ''~'' then
           (if next = CHR ''*'' then op2 TOKEN_REGEX_IMATCH c (CHR ''*'') l
            else op1 TOKEN_REGEX_MATCH l)
         else if c = CHR '':'' then
           (if next = CHR '':'' then op2 TOKEN_TYPECAST c (CHR '':'') l
            else op1 TOKEN_COLON l)
         else if c = CHR ''$'' then lexer_scan_param next l
         else (False, lexer_set_error l ''unexpected character''))"

section \<open>The driver\<close>

definition token_set_location :: "Lexer \<Rightarrow> Lexer" where
  "token_set_location lexer =
     lexer\<lparr>current_token := (current_token lexer)
       \<lparr>location := \<lparr>loc_line = line lexer, loc_column = column lexer,
          offset = int32 (int (pos lexer))\<rparr>\<rparr>\<rparr>"

text \<open>The dispatch on the first byte of the token, once the input is known not to be
  exhausted.\<close>

definition lexer_dispatch :: "Lexer \<Rightarrow> bool \<times> Lexer" where
  "lexer_dispatch lexer =
     (let c = lexer_peek lexer
      in if c = squote \<or> c = dquote then lexer_scan_string (token_set_type lexer TOKEN_SCONST)
         else if is_digit c then lexer_scan_number lexer
         else if is_alpha c then lexer_scan_identifier lexer
         else lexer_scan_operator lexer)"

definition lexer_next_token :: "Lexer \<Rightarrow> bool \<times> Lexer" where
  "lexer_next_token lexer =
     (let l0 = (if has_current lexer \<and> tok_value (current_token lexer) \<noteq> None
                then lexer\<lparr>current_token := (current_token lexer)\<lparr>tok_value := None\<rparr>\<rparr>
                else lexer);
          l1 = token_set_location (lexer_skip_loop l0)
      in if pos l1 \<ge> input_len l1
         then (True, l1\<lparr>current_token := (current_token l1)
                 \<lparr>tok_type := TOKEN_EOF, tok_value := None, tok_length := 0\<rparr>,
                 has_current := True\<rparr>)
         else let (success, l2) = lexer_dispatch l1
              in (success, l2\<lparr>has_current := success\<rparr>))"

definition lexer_current_token :: "Lexer \<Rightarrow> Token option" where
  "lexer_current_token lexer = (if has_current lexer then Some (current_token lexer) else None)"

section \<open>Facts about the cursor\<close>


lemma drop_pos_Cons:
  "pos l < input_len l \<Longrightarrow> drop (pos l) (input l) = lexer_peek l # drop (Suc (pos l)) (input l)"
  by (simp add: lexer_peek_def input_len_def Cons_nth_drop_Suc)

lemma lexer_advance_while_step:
  "pos l < input_len l \<Longrightarrow> P (lexer_peek l) \<Longrightarrow>
   lexer_advance_while P l = lexer_advance_while P (lexer_advance l)"
  by (subst lexer_advance_while.simps) simp

lemma lexer_advance_while_stop:
  "\<not> (pos l < input_len l \<and> P (lexer_peek l)) \<Longrightarrow> lexer_advance_while P l = l"
  by (subst lexer_advance_while.simps) auto

lemma pos_lexer_advance_while:
  "pos l \<le> input_len l \<Longrightarrow>
   pos (lexer_advance_while P l) = pos l + length (takeWhile P (drop (pos l) (input l)))"
proof (induction P l rule: lexer_advance_while.induct)
  case (1 P l)
  show ?case
  proof (cases "pos l < input_len l \<and> P (lexer_peek l)")
    case True
    then have "pos (lexer_advance_while P (lexer_advance l))
        = pos (lexer_advance l) + length (takeWhile P (drop (pos (lexer_advance l)) (input l)))"
      using 1 by simp
    moreover have "lexer_advance_while P l = lexer_advance_while P (lexer_advance l)"
      using True by (simp add: lexer_advance_while_step)
    ultimately show ?thesis
      using True by (simp add: drop_pos_Cons)
  next
    case False
    then have "lexer_advance_while P l = l"
      by (rule lexer_advance_while_stop)
    moreover have "takeWhile P (drop (pos l) (input l)) = []"
    proof (cases "pos l < input_len l")
      case True
      with False show ?thesis by (simp add: drop_pos_Cons)
    next
      case False
      then show ?thesis by (simp add: input_len_def)
    qed
    ultimately show ?thesis by simp
  qed
qed

lemma pos_lexer_advance_while_le:
  assumes "pos l \<le> input_len l"
  shows "pos (lexer_advance_while P l) \<le> input_len l"
proof -
  have "length (takeWhile P (drop (pos l) (input l))) \<le> length (drop (pos l) (input l))"
    by (rule length_takeWhile_le)
  then show ?thesis
    using assms by (simp add: pos_lexer_advance_while input_len_def)
qed

lemma pos_lexer_advance_le: "pos l \<le> input_len l \<Longrightarrow> pos (lexer_advance l) \<le> input_len l"
  by (simp add: pos_lexer_advance)

lemma pos_lexer_advance_ge: "pos l \<le> pos (lexer_advance l)"
  by (simp add: pos_lexer_advance)

lemma int32_id: "0 \<le> x \<Longrightarrow> x < 2 ^ 31 \<Longrightarrow> int32 x = x"
  by (simp add: int32_def)

section \<open>The text of a token\<close>

text \<open>
  \<open>moved l lx\<close>: the cursor of \<open>lx\<close> is that of \<open>l\<close> moved forward inside the input, the
  token slot untouched. \<open>text_at p l l'\<close>: the token of \<open>l'\<close> has as its text the bytes of
  the input from \<open>p\<close> on, as many as its length says, and keeps the location it had in
  \<open>l\<close>. \<open>three_byte_kind\<close>: the kinds of the operators \<^verbatim>\<open>->>\<close>, \<^verbatim>\<open>#>>\<close> and \<^verbatim>\<open>!~*\<close>.
  \<open>plain_ok l r\<close>: the result \<open>r\<close> of a scanner, when it is a success, is such a token at
  the position of \<open>l\<close>, is neither a string nor the end of input, and lies inside its
  buffer unless it is one of the three-byte operators.
\<close>


definition moved :: "Lexer \<Rightarrow> Lexer \<Rightarrow> bool" where
  "moved l lx \<longleftrightarrow> input lx = input l \<and> current_token lx = current_token l
     \<and> pos l \<le> pos lx \<and> pos lx \<le> input_len l"

definition text_at :: "nat \<Rightarrow> Lexer \<Rightarrow> Lexer \<Rightarrow> bool" where
  "text_at p l l' \<longleftrightarrow> input l' = input l
     \<and> location (current_token l') = location (current_token l)
     \<and> tok_value (current_token l') = Some (slice (input l) p (tok_length (current_token l')))
     \<and> p + tok_length (current_token l') \<le> input_len l"

lemma moved_refl: "pos l \<le> input_len l \<Longrightarrow> moved l l"
  by (simp add: moved_def)

lemma moved_advance: "moved l lx \<Longrightarrow> moved l (lexer_advance lx)"
  by (auto simp: moved_def pos_lexer_advance input_len_def)

lemma moved_advance_while: "moved l lx \<Longrightarrow> moved l (lexer_advance_while P lx)"
  using pos_lexer_advance_while_ge [of lx P] pos_lexer_advance_while_le [of lx P]
  by (auto simp: moved_def input_len_def)

definition three_byte_kind :: "TokenType \<Rightarrow> bool" where
  "three_byte_kind t \<longleftrightarrow>
     t = TOKEN_JSON_EXTRACT_TEXT \<or> t = TOKEN_JSON_PATH_TEXT \<or> t = TOKEN_REGEX_INMATCH"

definition plain_ok :: "Lexer \<Rightarrow> bool \<times> Lexer \<Rightarrow> bool" where
  "plain_ok l r \<longleftrightarrow> (fst r \<longrightarrow> text_at (pos l) l (snd r)
     \<and> tok_type (current_token (snd r)) \<noteq> TOKEN_EOF
     \<and> tok_type (current_token (snd r)) \<noteq> TOKEN_SCONST
     \<and> (token_in_bounds (current_token (snd r))
          \<longleftrightarrow> \<not> three_byte_kind (tok_type (current_token (snd r)))))"

lemma plain_ok_False [simp]: "plain_ok l (False, x)"
  by (simp add: plain_ok_def)

lemma length_slice_le: "length (slice xs p n) \<le> n"
  by (simp add: slice_def)

lemma finish_number_ok:
  "moved l lx \<Longrightarrow> plain_ok l (lexer_finish_number (pos l) f lx)"
  using length_slice_le [of "input l" "pos l" "pos lx - pos l"]
  by (auto simp: plain_ok_def lexer_finish_number_def Let_def moved_def text_at_def
        token_copy_def token_set_text_def token_set_type_def token_set_data_def
        token_palloc_def token_in_bounds_def three_byte_kind_def tok_defs)

lemma scan_number_ok:
  assumes "pos l \<le> input_len l"
  shows "plain_ok l (lexer_scan_number l)"
proof -
  note m = moved_refl [OF assms] moved_advance moved_advance_while
  show ?thesis
    unfolding lexer_scan_number_def Let_def
    by (auto intro!: finish_number_ok m)
qed

lemma keyword_kinds:
  "\<forall>e \<in> set keyword_table. snd e \<noteq> TOKEN_EOF \<and> snd e \<noteq> TOKEN_SCONST
     \<and> \<not> three_byte_kind (snd e)"
  by (simp add: keyword_table_def three_byte_kind_def tok_defs)

lemma lookup_keyword_loop_range:
  "0 \<le> left \<Longrightarrow> right < num_keywords \<Longrightarrow>
   lookup_keyword_loop str len left right \<in> insert TOKEN_IDENT (snd ` set keyword_table)"
proof (induction str len left right rule: lookup_keyword_loop.induct)
  case (1 str len left right)
  show ?case
  proof (cases "left \<le> right")
    case True
    define mid where "mid = (left + right) div 2"
    have mid: "left \<le> mid" "mid \<le> right"
      using True by (simp_all add: mid_def)
    then have "nat mid < length keyword_table"
      using 1(3,4) by (simp add: num_keywords_def)
    then have entry: "snd (keyword_table ! nat mid) \<in> snd ` set keyword_table"
      by simp
    have l: "lookup_keyword_loop str len left (mid - 1) \<in> insert TOKEN_IDENT (snd ` set keyword_table)"
      if "\<not> (strncasecmp str (fst (keyword_table ! nat mid)) len = 0
              \<and> strlen (fst (keyword_table ! nat mid)) = len)"
         "strncasecmp str (fst (keyword_table ! nat mid)) len < 0"
      using 1(1) [OF True mid_def refl that] 1(3,4) mid by simp
    have r: "lookup_keyword_loop str len (mid + 1) right \<in> insert TOKEN_IDENT (snd ` set keyword_table)"
      if "\<not> (strncasecmp str (fst (keyword_table ! nat mid)) len = 0
              \<and> strlen (fst (keyword_table ! nat mid)) = len)"
         "\<not> strncasecmp str (fst (keyword_table ! nat mid)) len < 0"
      using 1(2) [OF True mid_def refl that] 1(3,4) mid by simp
    show ?thesis
      using True entry l r
      by (subst lookup_keyword_loop.simps) (auto simp: Let_def mid_def [symmetric])
  next
    case False
    then show ?thesis
      by (subst lookup_keyword_loop.simps) simp
  qed
qed

lemma lookup_keyword_kind:
  "lookup_keyword str len \<noteq> TOKEN_EOF \<and> lookup_keyword str len \<noteq> TOKEN_SCONST
     \<and> \<not> three_byte_kind (lookup_keyword str len)"
proof -
  have "lookup_keyword str len \<in> insert TOKEN_IDENT (snd ` set keyword_table)"
    unfolding lookup_keyword_def by (rule lookup_keyword_loop_range) simp_all
  moreover have "TOKEN_IDENT \<noteq> TOKEN_EOF \<and> TOKEN_IDENT \<noteq> TOKEN_SCONST
      \<and> \<not> three_byte_kind TOKEN_IDENT"
    by (simp add: three_byte_kind_def tok_defs)
  ultimately show ?thesis
    using keyword_kinds by auto
qed

lemma scan_identifier_ok:
  assumes "pos l \<le> input_len l"
  shows "plain_ok l (lexer_scan_identifier l)"
proof -
  define lx where "lx = lexer_advance_while is_alnum (lexer_advance l)"
  have m: "moved l lx"
    unfolding lx_def by (intro moved_advance_while moved_advance moved_refl assms)
  show ?thesis
    unfolding lexer_scan_identifier_def Let_def lx_def [symmetric]
    using m lookup_keyword_kind [of "slice (input lx) (pos l) (pos lx - pos l)" "pos lx - pos l"]
      length_slice_le [of "input l" "pos l" "pos lx - pos l"]
    by (simp add: plain_ok_def moved_def text_at_def lexer_set_error_def token_copy_def
        token_set_text_def token_set_type_def token_palloc_def token_in_bounds_def)
qed

lemma slice_Suc: "p < length xs \<Longrightarrow> slice xs p (Suc n) = xs ! p # slice xs (Suc p) n"
  by (simp add: slice_def Cons_nth_drop_Suc [symmetric])

lemma slice_0 [simp]: "slice xs p 0 = []"
  by (simp add: slice_def)

lemma slice_1: "p < length xs \<Longrightarrow> slice xs p (Suc 0) = [xs ! p]"
  using slice_Suc [of p xs 0] by simp

lemma slice_2: "p + 1 < length xs \<Longrightarrow> slice xs p 2 = [xs ! p, xs ! (p + 1)]"
  using slice_Suc [of p xs 1] slice_1 [of "Suc p" xs] by (simp add: numeral_2_eq_2)

lemma slice_3: "p + 2 < length xs \<Longrightarrow> slice xs p 3 = [xs ! p, xs ! (p + 1), xs ! (p + 2)]"
  using slice_Suc [of p xs 2] slice_2 [of "Suc p" xs] by (simp add: numeral_3_eq_3)

definition next_byte :: "Lexer \<Rightarrow> char" where
  "next_byte l = (if pos l + 1 < input_len l then input l ! (pos l + 1) else NUL)"

lemma next_byteD:
  "next_byte l = c \<Longrightarrow> c \<noteq> NUL \<Longrightarrow> pos l + 1 < input_len l \<and> input l ! (pos l + 1) = c"
  by (auto simp: next_byte_def split: if_splits)

lemma op1_ok:
  "pos l < input_len l \<Longrightarrow> lexer_peek l = c \<Longrightarrow> t \<noteq> TOKEN_EOF \<Longrightarrow> t \<noteq> TOKEN_SCONST \<Longrightarrow>
   \<not> three_byte_kind t \<Longrightarrow>
   plain_ok l (op1 t (lexer_advance (token_set_text (token_palloc l 3) [c] (Suc 0))))"
  by (auto simp: plain_ok_def op1_def text_at_def token_set_text_def token_set_type_def
        token_palloc_def token_in_bounds_def lexer_peek_def input_len_def slice_1)

lemma op2_ok:
  assumes "next_byte l = c2" "c2 \<noteq> NUL" "lexer_peek l = c" "t \<noteq> TOKEN_EOF" "t \<noteq> TOKEN_SCONST"
    "\<not> three_byte_kind t"
  shows "plain_ok l (op2 t c c2 (lexer_advance (token_set_text (token_palloc l 3) [c] (Suc 0))))"
  using next_byteD [OF assms(1,2)] assms(3-)
  by (auto simp: plain_ok_def op2_def text_at_def token_set_text_def token_set_type_def
        token_palloc_def token_in_bounds_def lexer_peek_def input_len_def slice_2)

lemma op3_ok:
  assumes "next_byte l = c2" "c2 \<noteq> NUL" "lexer_peek l = c"
    "third_is (lexer_advance (token_set_text (token_palloc l 3) [c] (Suc 0))) c3"
    "t \<noteq> TOKEN_EOF" "t \<noteq> TOKEN_SCONST" "three_byte_kind t"
  shows "plain_ok l (op3 t c c2 c3 (lexer_advance (token_set_text (token_palloc l 3) [c] (Suc 0))))"
  using next_byteD [OF assms(1,2)] assms(3-)
  by (auto simp: plain_ok_def op3_def text_at_def token_set_text_def token_set_type_def
        token_palloc_def token_in_bounds_def third_is_def lexer_peek_def input_len_def slice_3
        pos_lexer_advance lexer_advance_def)

lemma scan_param_ok:
  assumes "pos l < input_len l" and "lexer_peek l = CHR ''$''"
  shows "plain_ok l (lexer_scan_param nx
    (lexer_advance (token_set_text (token_palloc l 3) [CHR ''$''] (Suc 0))))"
proof -
  define l1 where "l1 = lexer_advance (token_set_text (token_palloc l 3) [CHR ''$''] (Suc 0))"
  define l2 where "l2 = lexer_advance_while is_digit l1"
  have p1: "pos l1 = Suc (pos l)" "input l1 = input l"
    "location (current_token l1) = location (current_token l)"
    using assms(1)
    by (simp_all add: l1_def token_set_text_def token_palloc_def lexer_advance_def input_len_def)
  have p2: "pos l1 \<le> pos l2" "pos l2 \<le> input_len l" "input l2 = input l"
    "location (current_token l2) = location (current_token l)"
    using pos_lexer_advance_while_ge [of l1 is_digit] pos_lexer_advance_while_le [of l1 is_digit]
      p1 assms(1)
    by (simp_all add: l2_def input_len_def)
  have "input l ! pos l = CHR ''$''"
    using assms by (simp add: lexer_peek_def)
  then have "slice (input l) (pos l) (Suc (pos l2 - pos l1))
      = CHR ''$'' # slice (input l) (pos l1) (pos l2 - pos l1)"
    using assms(1) p1 by (simp add: slice_Suc input_len_def)
  then show ?thesis
    unfolding lexer_scan_param_def Let_def l1_def [symmetric] l2_def [symmetric]
    using p1 p2 length_slice_le [of "input l" "pos l1" "pos l2 - pos l1"]
    by (simp add: plain_ok_def text_at_def token_set_text_def token_set_type_def
        token_set_data_def token_palloc_def token_in_bounds_def three_byte_kind_def
        lexer_set_error_def tok_defs)
qed

lemma scan_operator_ok:
  assumes "pos l < input_len l"
  shows "plain_ok l (lexer_scan_operator l)"
  unfolding lexer_scan_operator_def Let_def next_byte_def [symmetric]
  using assms
  by (simp add: op1_ok op2_ok op3_ok scan_param_ok three_byte_kind_def tok_defs NUL_def)

text \<open>
  \<open>string_ok q start l l'\<close>: the token of \<open>l'\<close> is the text from \<open>start\<close> up to a closing
  delimiter \<open>q\<close>, inside its buffer, its kind the one that \<open>l\<close> had.
\<close>


definition string_ok :: "char \<Rightarrow> nat \<Rightarrow> Lexer \<Rightarrow> Lexer \<Rightarrow> bool" where
  "string_ok q start l l' \<longleftrightarrow> text_at start l l'
     \<and> tok_type (current_token l') = tok_type (current_token l)
     \<and> token_in_bounds (current_token l')
     \<and> start + tok_length (current_token l') < input_len l
     \<and> input l ! (start + tok_length (current_token l')) = q"

lemma string_ok_cong:
  "input l1 = input l \<Longrightarrow> current_token l1 = current_token l \<Longrightarrow>
   string_ok q start l1 l' \<Longrightarrow> string_ok q start l l'"
  by (simp add: string_ok_def text_at_def input_len_def)

lemma scan_string_loop_ok:
  "start \<le> pos l \<Longrightarrow> lexer_scan_string_loop q start l = (True, l') \<Longrightarrow> string_ok q start l l'"
proof (induction q start l rule: lexer_scan_string_loop.induct)
  case (1 quote start lexer)
  have lt: "pos lexer < input_len lexer"
    using 1(5) by (subst (asm) lexer_scan_string_loop.simps) (simp split: if_splits)
  consider (doubled) "lexer_peek lexer = quote" "pos lexer + 1 < input_len lexer"
      "input lexer ! (pos lexer + 1) = quote"
    | (closing) "lexer_peek lexer = quote"
      "\<not> (pos lexer + 1 < input_len lexer \<and> input lexer ! (pos lexer + 1) = quote)"
    | (escape) "lexer_peek lexer \<noteq> quote" "lexer_peek lexer = backslash"
    | (plain) "lexer_peek lexer \<noteq> quote" "lexer_peek lexer \<noteq> backslash"
    by blast
  then show ?case
  proof cases
    case doubled
    have "lexer_scan_string_loop quote start (lexer_advance (lexer_advance lexer)) = (True, l')"
      using 1(5) lt doubled by (subst (asm) lexer_scan_string_loop.simps) simp
    moreover have "start \<le> pos (lexer_advance (lexer_advance lexer))"
      using 1(4) lt by (simp add: pos_lexer_advance)
    ultimately have "string_ok quote start (lexer_advance (lexer_advance lexer)) l'"
      using 1(1) [OF lt refl] doubled by simp
    then show ?thesis
      by (rule string_ok_cong [rotated 2]) simp_all
  next
    case closing
    have "l' = lexer_advance (token_copy lexer start (pos lexer - start))"
      using 1(5) lt closing by (subst (asm) lexer_scan_string_loop.simps) auto
    then show ?thesis
      using 1(4) lt closing(1) length_slice_le [of "input lexer" start "pos lexer - start"]
      by (simp add: string_ok_def text_at_def token_copy_def token_set_text_def
          token_palloc_def token_in_bounds_def lexer_peek_def input_len_def)
  next
    case escape
    define l1 where "l1 = lexer_advance lexer"
    define l2 where "l2 = (if pos l1 < input_len l1 then lexer_advance l1 else l1)"
    have "lexer_scan_string_loop quote start l2 = (True, l')"
      using 1(5) lt escape
      by (subst (asm) lexer_scan_string_loop.simps) (auto simp: Let_def l1_def l2_def split: if_splits)
    moreover have "start \<le> pos l2"
      using 1(4) lt by (simp add: l1_def l2_def pos_lexer_advance)
    ultimately have "string_ok quote start l2 l'"
      using 1(2) [OF lt refl _ _ l1_def] escape by (simp add: l2_def)
    then show ?thesis
      by (rule string_ok_cong [rotated 2]) (simp_all add: l1_def l2_def)
  next
    case plain
    have "lexer_scan_string_loop quote start (lexer_advance lexer) = (True, l')"
      using 1(5) lt plain by (subst (asm) lexer_scan_string_loop.simps) simp
    moreover have "start \<le> pos (lexer_advance lexer)"
      using 1(4) lt by (simp add: pos_lexer_advance)
    ultimately have "string_ok quote start (lexer_advance lexer) l'"
      using 1(3) [OF lt refl] plain by simp
    then show ?thesis
      by (rule string_ok_cong [rotated 2]) simp_all
  qed
qed

lemma input_lexer_skip_loop [simp]: "input (lexer_skip_loop l) = input l"
  by (induction l rule: lexer_skip_loop.induct)
     (subst lexer_skip_loop.simps, simp add: Let_def)

lemma lexer_skip_loop_at_end: "input_len l \<le> pos l \<Longrightarrow> lexer_skip_loop l = l"
  by (subst lexer_skip_loop.simps) simp

lemma scan_string_ok:
  assumes "pos l < input_len l" and "lexer_scan_string l = (True, l')"
  shows "string_ok (lexer_peek l) (pos l + 1) l l'"
proof -
  have "string_ok (lexer_peek l) (pos l + 1) (lexer_advance l) l'"
    using assms by (intro scan_string_loop_ok) (simp_all add: lexer_scan_string_def Let_def)
  then show ?thesis
    by (rule string_ok_cong [rotated 2]) simp_all
qed

text \<open>
  \<open>token_ok l l'\<close>: what a successful dispatch at \<open>l\<close> leaves in \<open>l'\<close>. After a quote, a
  string token whose text starts one byte after the position of \<open>l\<close> and ends before
  the same quote; otherwise a token of another kind whose text starts at the position.
  The token lies inside its buffer unless it is one of the three-byte operators.
\<close>

definition token_ok :: "Lexer \<Rightarrow> Lexer \<Rightarrow> bool" where
  "token_ok l l' \<longleftrightarrow>
     (if lexer_peek l = squote \<or> lexer_peek l = dquote
      then text_at (pos l + 1) l l' \<and> tok_type (current_token l') = TOKEN_SCONST
         \<and> token_in_bounds (current_token l')
         \<and> pos l + 1 + tok_length (current_token l') < input_len l
         \<and> input l ! (pos l + 1 + tok_length (current_token l')) = lexer_peek l
      else text_at (pos l) l l' \<and> tok_type (current_token l') \<noteq> TOKEN_EOF
         \<and> tok_type (current_token l') \<noteq> TOKEN_SCONST
         \<and> (token_in_bounds (current_token l')
              \<longleftrightarrow> \<not> three_byte_kind (tok_type (current_token l'))))"

lemma dispatch_ok:
  assumes "pos l < input_len l" and "lexer_dispatch l = (True, l')"
  shows "token_ok l l'"
proof (cases "lexer_peek l = squote \<or> lexer_peek l = dquote")
  case True
  define l0 where "l0 = token_set_type l TOKEN_SCONST"
  have l0: "pos l0 = pos l" "input l0 = input l" "lexer_peek l0 = lexer_peek l"
    "input_len l0 = input_len l" "tok_type (current_token l0) = TOKEN_SCONST"
    "location (current_token l0) = location (current_token l)"
    by (simp_all add: l0_def token_set_type_def lexer_peek_def input_len_def)
  have "lexer_scan_string l0 = (True, l')"
    using assms(2) True by (auto simp: lexer_dispatch_def Let_def l0_def)
  then have "string_ok (lexer_peek l0) (pos l0 + 1) l0 l'"
    using assms(1) l0 by (intro scan_string_ok) simp_all
  then show ?thesis
    using True l0 by (auto simp: token_ok_def string_ok_def text_at_def)
next
  case False
  have "plain_ok l (lexer_dispatch l)"
    using False assms(1) scan_number_ok [of l] scan_identifier_ok [of l] scan_operator_ok [of l]
    by (simp add: lexer_dispatch_def Let_def)
  then show ?thesis
    using False assms(2) by (simp add: token_ok_def plain_ok_def)
qed

lemma next_token_cases:
  assumes "lexer_next_token l = (True, l')"
  obtains (eof) l1 where "input_len l1 \<le> pos l1" "input l1 = input l"
      "l' = l1\<lparr>current_token := (current_token l1)
         \<lparr>tok_type := TOKEN_EOF, tok_value := None, tok_length := 0\<rparr>, has_current := True\<rparr>"
      "location (current_token l1)
         = \<lparr>loc_line = line l1, loc_column = column l1, offset = int32 (int (pos l1))\<rparr>"
    | (token) l1 l2 where "pos l1 < input_len l1" "input l1 = input l"
      "offset (location (current_token l1)) = int32 (int (pos l1))" "token_ok l1 l2"
      "l' = l2\<lparr>has_current := True\<rparr>"
proof -
  define l0 where "l0 = (if has_current l \<and> tok_value (current_token l) \<noteq> None
                then l\<lparr>current_token := (current_token l)\<lparr>tok_value := None\<rparr>\<rparr> else l)"
  define l1 where "l1 = token_set_location (lexer_skip_loop l0)"
  have i: "input l1 = input l"
    by (simp add: l1_def l0_def token_set_location_def)
  have loc: "location (current_token l1)
      = \<lparr>loc_line = line l1, loc_column = column l1, offset = int32 (int (pos l1))\<rparr>"
    by (simp add: l1_def token_set_location_def)
  note nt = assms [unfolded lexer_next_token_def Let_def, folded l0_def, folded l1_def]
  show thesis
  proof (cases "input_len l1 \<le> pos l1")
    case True
    with nt have e: "l' = l1\<lparr>current_token := (current_token l1)
         \<lparr>tok_type := TOKEN_EOF, tok_value := None, tok_length := 0\<rparr>, has_current := True\<rparr>"
      by simp
    show ?thesis
      by (rule eof [OF True i e loc])
  next
    case False
    with nt obtain l2 where d: "lexer_dispatch l1 = (True, l2)" and l': "l' = l2\<lparr>has_current := True\<rparr>"
      by (auto split: prod.splits)
    from False have lt: "pos l1 < input_len l1"
      by simp
    from lt d have "token_ok l1 l2"
      by (rule dispatch_ok)
    with lt i show ?thesis
      using loc l' by (intro token) simp_all
  qed
qed

section \<open>A call at the first byte of a lexeme\<close>


lemma drop_eq_ConsD:
  "drop n xs = y # ys \<Longrightarrow> n < length xs \<and> xs ! n = y \<and> drop (Suc n) xs = ys"
proof -
  assume a: "drop n xs = y # ys"
  then have "n < length xs"
    by (cases "n < length xs") simp_all
  then show ?thesis
    using a by (simp add: Cons_nth_drop_Suc [symmetric])
qed

lemma at_drop:
  assumes "drop (pos l) (input l) = c # r"
  shows "pos l < input_len l" and "lexer_peek l = c" and "input l ! pos l = c"
    and "drop (Suc (pos l)) (input l) = r"
    and "pos (lexer_advance l) = Suc (pos l)"
  using drop_eq_ConsD [OF assms] by (simp_all add: input_len_def lexer_peek_def)

text \<open>The state in which the scanners start: the payload of the previous token dropped,
  the location of the new token stored.\<close>

definition token_start :: "Lexer \<Rightarrow> Lexer" where
  "token_start l = token_set_location
     (if has_current l \<and> tok_value (current_token l) \<noteq> None
      then l\<lparr>current_token := (current_token l)\<lparr>tok_value := None\<rparr>\<rparr> else l)"

lemma token_start_simps [simp]:
  "input (token_start l) = input l" "pos (token_start l) = pos l"
  "input_len (token_start l) = input_len l" "lexer_peek (token_start l) = lexer_peek l"
  "offset (location (current_token (token_start l))) = int32 (int (pos l))"
  "error_msg (token_start l) = error_msg l"
  by (simp_all add: token_start_def token_set_location_def input_len_def lexer_peek_def)

lemma next_token_at:
  assumes "pos l < input_len l" and "\<not> is_space (lexer_peek l)" and "\<not> at_comment l"
  shows "lexer_next_token l
    = (fst (lexer_dispatch (token_start l)),
       (snd (lexer_dispatch (token_start l)))\<lparr>has_current := fst (lexer_dispatch (token_start l))\<rparr>)"
proof -
  define l0 where "l0 = (if has_current l \<and> tok_value (current_token l) \<noteq> None
      then l\<lparr>current_token := (current_token l)\<lparr>tok_value := None\<rparr>\<rparr> else l)"
  have l0: "pos l0 = pos l" "input l0 = input l" "input_len l0 = input_len l"
    "lexer_peek l0 = lexer_peek l" "at_comment l0 = at_comment l"
    by (simp_all add: l0_def input_len_def lexer_peek_def at_comment_def)
  have "lexer_skip_whitespace l0 = l0"
    unfolding lexer_skip_whitespace_def using assms(2) l0
    by (intro lexer_advance_while_stop) simp
  then have "lexer_skip_loop l0 = l0"
    using assms l0 by (subst lexer_skip_loop.simps) (simp add: Let_def)
  then show ?thesis
    using assms(1) l0
    unfolding lexer_next_token_def Let_def token_start_def l0_def [symmetric]
    by (simp add: token_set_location_def input_len_def split: prod.splits)
qed

lemma take_length_takeWhile: "take (length (takeWhile P xs)) xs = takeWhile P xs"
  by (induction xs) simp_all

lemma is_digit_not_NUL: "is_digit c \<Longrightarrow> c \<noteq> NUL"
  by (auto simp: is_digit_def NUL_def code_def)

section \<open>Facts about the string scanner\<close>


lemma input_funpow_advance [simp]: "input ((lexer_advance ^^ n) l) = input l"
  by (induction n) simp_all

lemma input_len_funpow_advance [simp]: "input_len ((lexer_advance ^^ n) l) = input_len l"
  by (simp add: input_len_def)

lemma current_token_funpow_advance [simp]:
  "current_token ((lexer_advance ^^ n) l) = current_token l"
  by (induction n) simp_all

lemma pos_funpow_advance:
  "pos l + n \<le> input_len l \<Longrightarrow> pos ((lexer_advance ^^ n) l) = pos l + n"
  by (induction n) (simp_all add: pos_lexer_advance)

lemma drop_append_length_le:
  "drop p xs = ys @ r \<Longrightarrow> p \<le> length xs \<Longrightarrow> p + length ys \<le> length xs"
proof -
  assume a: "drop p xs = ys @ r" and b: "p \<le> length xs"
  have "length (drop p xs) = length xs - p"
    by (rule length_drop)
  with a have "length xs - p = length ys + length r"
    by simp
  with b show ?thesis
    by arith
qed

lemma drop_append_drop:
  "drop p xs = ys @ r \<Longrightarrow> drop (p + length ys) xs = r"
proof -
  assume a: "drop p xs = ys @ r"
  have "drop (p + length ys) xs = drop (length ys) (drop p xs)"
    by (simp add: add.commute)
  then show ?thesis
    using a by simp
qed

lemma scan_string_loop_plain:
  assumes "drop (pos l) (input l) = xs @ r" and "\<forall>c \<in> set xs. c \<noteq> q \<and> c \<noteq> backslash"
  shows "lexer_scan_string_loop q start l
    = lexer_scan_string_loop q start ((lexer_advance ^^ length xs) l)"
  using assms
proof (induction xs arbitrary: l)
  case Nil
  then show ?case by simp
next
  case (Cons x xs)
  from Cons.prems(1) have d: "drop (pos l) (input l) = x # (xs @ r)"
    by simp
  note a = at_drop [OF d]
  have "lexer_scan_string_loop q start l = lexer_scan_string_loop q start (lexer_advance l)"
    using a Cons.prems(2) by (subst lexer_scan_string_loop.simps) (simp add: Let_def)
  also have "\<dots> = lexer_scan_string_loop q start ((lexer_advance ^^ length xs) (lexer_advance l))"
    using a Cons.prems(2) by (intro Cons.IH) simp_all
  finally show ?case
    by (simp add: funpow_swap1)
qed

lemma scan_string_loop_pair:
  assumes "drop (pos l) (input l) = a # b # r"
    and "(a = q \<and> b = q) \<or> (a = backslash \<and> a \<noteq> q)"
  shows "lexer_scan_string_loop q start l
    = lexer_scan_string_loop q start ((lexer_advance ^^ 2) l)"
proof -
  note a0 = at_drop [OF assms(1)]
  note a1 = drop_eq_ConsD [OF a0(4)]
  show ?thesis
    using a0 a1 assms(2)
    by (subst lexer_scan_string_loop.simps)
       (auto simp: Let_def input_len_def numeral_2_eq_2)
qed

lemma scan_string_loop_close:
  assumes "drop (pos l) (input l) = q # r" and "r = [] \<or> hd r \<noteq> q"
  shows "lexer_scan_string_loop q start l
    = (True, lexer_advance (token_copy l start (pos l - start)))"
proof -
  note a0 = at_drop [OF assms(1)]
  have "\<not> (pos l + 1 < input_len l \<and> input l ! (pos l + 1) = q)"
  proof (cases r)
    case Nil
    with a0(4) show ?thesis
      by (simp add: input_len_def)
  next
    case (Cons d r')
    with a0(4) assms(2) show ?thesis
      using drop_eq_ConsD [of "Suc (pos l)" "input l" d r'] by simp
  qed
  then show ?thesis
    using a0 by (subst lexer_scan_string_loop.simps) (auto simp: Let_def)
qed

text \<open>
  The body of a string literal, as the scanner reads it: a sequence of items, each a
  plain byte (neither the delimiter nor a backslash), a doubled delimiter, or a
  backslash and the byte after it. \<open>body_text q items\<close> is the body as it is written
  with the delimiter \<open>q\<close>.
\<close>

datatype body_item = Plain char | Doubled | Escaped char

fun item_text :: "char \<Rightarrow> body_item \<Rightarrow> string" where
  "item_text q (Plain c) = [c]"
| "item_text q Doubled = [q, q]"
| "item_text q (Escaped b) = [backslash, b]"

fun item_ok :: "char \<Rightarrow> body_item \<Rightarrow> bool" where
  "item_ok q (Plain c) \<longleftrightarrow> c \<noteq> q \<and> c \<noteq> backslash"
| "item_ok q Doubled \<longleftrightarrow> True"
| "item_ok q (Escaped b) \<longleftrightarrow> True"

definition body_text :: "char \<Rightarrow> body_item list \<Rightarrow> string" where
  "body_text q items = concat (map (item_text q) items)"

lemma body_text_simps [simp]:
  "body_text q [] = []"
  "body_text q (it # items) = item_text q it @ body_text q items"
  "body_text q (xs @ ys) = body_text q xs @ body_text q ys"
  by (simp_all add: body_text_def)

lemma scan_string_loop_item:
  assumes "drop (pos l) (input l) = item_text q it @ r" and "item_ok q it"
    and "backslash \<noteq> q"
  shows "lexer_scan_string_loop q start l
    = lexer_scan_string_loop q start ((lexer_advance ^^ length (item_text q it)) l)"
proof (cases it)
  case (Plain c)
  with assms show ?thesis
    using scan_string_loop_plain [of l "[c]" r q start] by simp
next
  case Doubled
  with assms show ?thesis
    using scan_string_loop_pair [of l q q r q start] by (simp add: numeral_2_eq_2)
next
  case (Escaped b)
  with assms show ?thesis
    using scan_string_loop_pair [of l backslash b r q start] by (simp add: numeral_2_eq_2)
qed

lemma item_text_not_Nil: "item_text q it \<noteq> []"
  by (cases it) simp_all

lemma scan_string_loop_items:
  assumes "drop (pos l) (input l) = body_text q items @ r" and "list_all (item_ok q) items"
    and "backslash \<noteq> q"
  shows "lexer_scan_string_loop q start l
    = lexer_scan_string_loop q start ((lexer_advance ^^ length (body_text q items)) l)"
  using assms(1,2)
proof (induction items arbitrary: l)
  case Nil
  then show ?case by simp
next
  case (Cons it items)
  define k where "k = length (item_text q it)"
  define l' where "l' = (lexer_advance ^^ k) l"
  from Cons.prems(1) have d: "drop (pos l) (input l) = item_text q it @ (body_text q items @ r)"
    by simp
  have "drop (pos l) (input l) \<noteq> []"
    using d item_text_not_Nil [of q it] by simp
  then have "pos l \<le> length (input l)"
    by simp
  then have "pos l + k \<le> input_len l"
    using drop_append_length_le [OF d] by (simp add: k_def input_len_def)
  then have p: "pos l' = pos l + k"
    unfolding l'_def by (rule pos_funpow_advance)
  have d': "drop (pos l') (input l') = body_text q items @ r"
    using drop_append_drop [OF d] p by (simp add: l'_def k_def)
  have "lexer_scan_string_loop q start l = lexer_scan_string_loop q start l'"
    unfolding l'_def k_def using d Cons.prems(2) assms(3)
    by (intro scan_string_loop_item) simp_all
  also have "\<dots> = lexer_scan_string_loop q start
      ((lexer_advance ^^ length (body_text q items)) l')"
    using d' Cons.prems(2) by (intro Cons.IH) simp_all
  also have "(lexer_advance ^^ length (body_text q items)) l'
      = (lexer_advance ^^ length (body_text q (it # items))) l"
    by (simp add: l'_def k_def funpow_add add.commute)
  finally show ?case .
qed

text \<open>
  A string literal at the position of the lexer: the call succeeds and the text of the
  token is the body as it is written, every doubled delimiter and every backslash pair
  included.
\<close>

lemma scan_string_body:
  assumes d: "drop (pos l) (input l) = q # body_text q items @ q # r"
    and q: "q = squote \<or> q = dquote"
    and ok: "list_all (item_ok q) items"
    and r: "r = [] \<or> hd r \<noteq> q"
  shows "fst (lexer_next_token l)
    \<and> tok_type (current_token (snd (lexer_next_token l))) = TOKEN_SCONST
    \<and> tok_value (current_token (snd (lexer_next_token l))) = Some (body_text q items)
    \<and> tok_length (current_token (snd (lexer_next_token l))) = length (body_text q items)
    \<and> token_in_bounds (current_token (snd (lexer_next_token l)))
    \<and> pos (snd (lexer_next_token l)) = pos l + length (body_text q items) + 2"
proof -
  define n where "n = length (body_text q items)"
  have bq: "backslash \<noteq> q"
    using q by (auto simp: backslash_def squote_def dquote_def)
  from d have d0: "drop (pos l) (input l) = q # (body_text q items @ q # r)"
    by simp
  note a0 = at_drop [OF d0]
  have nt: "lexer_next_token l
    = (fst (lexer_dispatch (token_start l)),
       (snd (lexer_dispatch (token_start l)))\<lparr>has_current := fst (lexer_dispatch (token_start l))\<rparr>)"
    using a0 q
    by (intro next_token_at)
       (auto simp: is_space_def at_comment_def newline_def squote_def dquote_def)
  define l0 where "l0 = token_set_type (token_start l) TOKEN_SCONST"
  have l0: "pos l0 = pos l" "input l0 = input l" "lexer_peek l0 = q"
    "tok_type (current_token l0) = TOKEN_SCONST"
    using a0 by (simp_all add: l0_def token_set_type_def lexer_peek_def input_len_def)
  define l1 where "l1 = lexer_advance l0"
  have l1: "pos l1 = Suc (pos l)" "input l1 = input l" "current_token l1 = current_token l0"
    using a0 l0 by (simp_all add: l1_def input_len_def)
  have disp: "lexer_dispatch (token_start l) = lexer_scan_string_loop q (Suc (pos l)) l1"
    using q l0 a0 l1
    by (auto simp: lexer_dispatch_def Let_def lexer_scan_string_def l0_def [symmetric]
          l1_def [symmetric])
  define l2 where "l2 = (lexer_advance ^^ n) l1"
  have b1: "drop (pos l1) (input l1) = body_text q items @ (q # r)"
    using a0(4) l1 by simp
  have len1: "pos l1 + n \<le> input_len l1"
    using drop_append_length_le [OF b1] a0(1) l1 by (simp add: input_len_def n_def)
  have l2: "pos l2 = Suc (pos l) + n" "input l2 = input l"
    "current_token l2 = current_token l0"
    using pos_funpow_advance [OF len1] l1 by (simp_all add: l2_def)
  have s1: "lexer_scan_string_loop q (Suc (pos l)) l1 = lexer_scan_string_loop q (Suc (pos l)) l2"
    unfolding l2_def n_def using b1 ok bq by (rule scan_string_loop_items)
  have b2: "drop (pos l2) (input l2) = q # r"
    using drop_append_drop [OF b1] l1 l2 by (simp add: n_def)
  have s2: "lexer_scan_string_loop q (Suc (pos l)) l2
    = (True, lexer_advance (token_copy l2 (Suc (pos l)) (pos l2 - Suc (pos l))))"
    using b2 r by (rule scan_string_loop_close)
  have sl: "slice (input l) (Suc (pos l)) n = body_text q items"
    using a0(4) by (simp add: slice_def n_def)
  have p2: "pos l2 < length (input l)"
    using at_drop(1) [OF b2] l2 by (simp add: input_len_def)
  show ?thesis
    unfolding nt disp s1 s2 n_def [symmetric]
    using l2 l0 sl p2
    by (simp add: token_copy_def token_set_text_def token_palloc_def token_in_bounds_def
        pos_lexer_advance input_len_def n_def)
qed

section \<open>Numbers, as the spec describes them\<close>

text \<open>
  The grammar of a number in the words of the spec, on the bytes \<open>r\<close> that lie ahead:
  the integer part is the longest run of digits; a fraction is a \<^verbatim>\<open>.\<close> that a digit
  follows, with the longest run of digits after it; an exponent is \<^verbatim>\<open>e\<close> or \<^verbatim>\<open>E\<close>, an
  optional sign and the longest run of digits, which must not be empty.
  \<open>spec_fraction\<close> is the text of the fraction, empty when there is none.
  \<open>spec_exponent\<close> is the text of the exponent, empty when there is no marker, and
  \<open>None\<close> when no digit follows the marker and the sign. \<open>spec_number\<close> is the text of
  the number and whether it is floating-point (it has a fraction or an exponent), or
  \<open>None\<close> when the exponent is malformed.
\<close>


definition spec_fraction :: "string \<Rightarrow> string" where
  "spec_fraction r =
     (if c_head r = CHR ''.'' \<and> is_digit (c_head (tl r))
      then CHR ''.'' # takeWhile is_digit (tl r) else [])"

definition spec_exponent :: "string \<Rightarrow> string option" where
  "spec_exponent r =
     (if c_head r = CHR ''e'' \<or> c_head r = CHR ''E'' then
        let sg = (if c_head (tl r) = CHR ''+'' \<or> c_head (tl r) = CHR ''-''
                  then [c_head (tl r)] else []);
            ds = takeWhile is_digit (drop (length sg) (tl r))
        in if ds = [] then None else Some (c_head r # sg @ ds)
      else Some [])"

definition spec_number :: "string \<Rightarrow> (string \<times> bool) option" where
  "spec_number r =
     (let ip = takeWhile is_digit r;
          fr = spec_fraction (dropWhile is_digit r);
          rest = drop (length ip + length fr) r
      in case spec_exponent rest of
           None \<Rightarrow> None
         | Some ex \<Rightarrow> Some (ip @ fr @ ex, fr \<noteq> [] \<or> ex \<noteq> []))"


text \<open>
  \<open>consumed l lx t r\<close>: from \<open>l\<close> the cursor has consumed the text \<open>t\<close>, the bytes \<open>r\<close> lie
  ahead of \<open>lx\<close>, and the token slot is untouched.
\<close>

definition consumed :: "Lexer \<Rightarrow> Lexer \<Rightarrow> string \<Rightarrow> string \<Rightarrow> bool" where
  "consumed l lx t r \<longleftrightarrow> input lx = input l \<and> current_token lx = current_token l
     \<and> pos lx = pos l + length t \<and> drop (pos l) (input l) = t @ r"

lemma consumed_refl: "consumed l l [] (drop (pos l) (input l))"
  by (simp add: consumed_def)

lemma consumed_drop: "consumed l lx t r \<Longrightarrow> drop (pos lx) (input lx) = r"
  using drop_append_drop [of "pos l" "input l" t r] by (simp add: consumed_def)

lemma c_head_drop: "lexer_peek lx = c_head (drop (pos lx) (input lx))"
  by (cases "pos lx < input_len lx")
     (simp_all add: lexer_peek_def input_len_def Cons_nth_drop_Suc [symmetric])

lemma consumed_peek: "consumed l lx t r \<Longrightarrow> lexer_peek lx = c_head r"
  using consumed_drop [of l lx t r] by (simp add: c_head_drop)

lemma consumed_more: "consumed l lx t r \<Longrightarrow> pos lx < input_len lx \<longleftrightarrow> r \<noteq> []"
  using consumed_drop [of l lx t r] by (auto simp: input_len_def)

lemma consumed_next:
  assumes "consumed l lx t r"
  shows "pos lx + 1 < input_len lx \<longleftrightarrow> tl r \<noteq> []"
    and "pos lx + 1 < input_len lx \<Longrightarrow> input lx ! (pos lx + 1) = c_head (tl r)"
proof -
  have "tl r = drop (Suc (pos lx)) (input lx)"
    using consumed_drop [OF assms, symmetric] by (simp add: drop_Suc tl_drop)
  then show "pos lx + 1 < input_len lx \<longleftrightarrow> tl r \<noteq> []"
    and "pos lx + 1 < input_len lx \<Longrightarrow> input lx ! (pos lx + 1) = c_head (tl r)"
    by (auto simp: input_len_def Cons_nth_drop_Suc [symmetric])
qed

lemma consumed_advance:
  assumes "consumed l lx t (c # r)"
  shows "consumed l (lexer_advance lx) (t @ [c]) r"
  using assms consumed_more [OF assms] by (simp add: consumed_def)

lemma consumed_advance_while:
  assumes "consumed l lx t r"
  shows "consumed l (lexer_advance_while P lx) (t @ takeWhile P r) (dropWhile P r)"
proof -
  have "pos (lexer_advance_while P lx) = pos lx + length (takeWhile P r)"
  proof (cases "pos lx \<le> input_len lx")
    case True
    then show ?thesis
      using consumed_drop [OF assms] by (simp add: pos_lexer_advance_while)
  next
    case False
    then have "lexer_advance_while P lx = lx" and "r = []"
      using consumed_drop [OF assms] by (simp_all add: lexer_advance_while_stop input_len_def)
    then show ?thesis
      by simp
  qed
  then show ?thesis
    using assms by (simp add: consumed_def)
qed


lemma consumed_finish_number:
  assumes "consumed l lx t r"
  shows "lexer_finish_number (pos l) f lx
    = (True, token_set_data
        (token_set_type (token_set_text (token_palloc lx (length t + 1)) t (length t))
           (if f then TOKEN_FCONST else TOKEN_ICONST))
        (if f then fval_strtod t else ival (strtoll t)))"
proof -
  have "slice (input lx) (pos l) (length t) = t"
    using assms by (simp add: consumed_def slice_def)
  then show ?thesis
    using assms by (simp add: lexer_finish_number_def Let_def consumed_def token_copy_def)
qed

lemma is_digit_c_head: "is_digit (c_head r) \<Longrightarrow> r \<noteq> []"
  using is_digit_not_NUL [of "c_head r"] by (cases r) simp_all

lemma c_head_eq: "c_head r = c \<Longrightarrow> c \<noteq> NUL \<Longrightarrow> r = c # tl r"
  by (cases r) simp_all

lemma number_scanner_cases:
  fixes l :: Lexer
  defines "r0 \<equiv> drop (pos l) (input l)"
  shows "case spec_number r0 of
      None \<Rightarrow> (\<exists>lx. lexer_scan_number l = (False, lexer_set_error lx ''invalid number format''))
    | Some (t, f) \<Rightarrow> (\<exists>lx r. consumed l lx t r \<and> lexer_scan_number l = lexer_finish_number (pos l) f lx)"
proof -
  define ip where "ip = takeWhile is_digit r0"
  define r1 where "r1 = dropWhile is_digit r0"
  define l1 where "l1 = lexer_advance_while is_digit l"
  have c1: "consumed l l1 ip r1"
    using consumed_advance_while [OF consumed_refl, of l is_digit]
    by (simp add: l1_def ip_def r1_def r0_def)
  define has_dot where "has_dot \<longleftrightarrow> pos l1 < input_len l1 \<and> lexer_peek l1 = CHR ''.''
     \<and> pos l1 + 1 < input_len l1 \<and> is_digit (input l1 ! (pos l1 + 1))"
  have dot: "has_dot \<longleftrightarrow> c_head r1 = CHR ''.'' \<and> is_digit (c_head (tl r1))"
  proof
    assume has_dot
    then show "c_head r1 = CHR ''.'' \<and> is_digit (c_head (tl r1))"
      using consumed_peek [OF c1] consumed_next(2) [OF c1] by (simp add: has_dot_def)
  next
    assume a: "c_head r1 = CHR ''.'' \<and> is_digit (c_head (tl r1))"
    then have "r1 \<noteq> []" and "tl r1 \<noteq> []"
      using is_digit_c_head [of "tl r1"] by (auto simp: NUL_def)
    then show has_dot
      using a consumed_peek [OF c1] consumed_more [OF c1] consumed_next [OF c1] by (simp add: has_dot_def)
  qed
  define fr where "fr = spec_fraction r1"
  define l2 where "l2 = (if has_dot then lexer_advance_while is_digit (lexer_advance l1) else l1)"
  define r2 where "r2 = (if has_dot then dropWhile is_digit (tl r1) else r1)"
  have fr_dot: "fr \<noteq> [] \<longleftrightarrow> has_dot"
    by (simp add: fr_def spec_fraction_def dot)
  have c2: "consumed l l2 (ip @ fr) r2"
  proof (cases has_dot)
    case True
    then have "r1 = CHR ''.'' # tl r1"
      using dot by (intro c_head_eq) (simp_all add: NUL_def)
    then have "consumed l l1 ip (CHR ''.'' # tl r1)"
      using c1 by simp
    then have "consumed l (lexer_advance l1) (ip @ [CHR ''.'']) (tl r1)"
      by (rule consumed_advance)
    then have "consumed l (lexer_advance_while is_digit (lexer_advance l1))
        ((ip @ [CHR ''.'']) @ takeWhile is_digit (tl r1)) (dropWhile is_digit (tl r1))"
      by (rule consumed_advance_while)
    moreover have "fr = CHR ''.'' # takeWhile is_digit (tl r1)"
      using True dot by (simp add: fr_def spec_fraction_def)
    moreover have "l2 = lexer_advance_while is_digit (lexer_advance l1)"
      and "r2 = dropWhile is_digit (tl r1)"
      using True by (simp_all add: l2_def r2_def)
    ultimately show ?thesis
      by simp
  next
    case False
    then have "fr = []"
      using fr_dot by simp
    moreover have "l2 = l1" and "r2 = r1"
      using False by (simp_all add: l2_def r2_def)
    ultimately show ?thesis
      using c1 by simp
  qed
  have "r0 = (ip @ fr) @ r2"
    using c2 by (simp add: consumed_def r0_def)
  then have rest: "drop (length ip + length fr) r0 = r2"
    by (metis append_eq_conv_conj length_append)
  define has_exp where "has_exp \<longleftrightarrow> pos l2 < input_len l2
     \<and> (lexer_peek l2 = CHR ''e'' \<or> lexer_peek l2 = CHR ''E'')"
  have exp: "has_exp \<longleftrightarrow> c_head r2 = CHR ''e'' \<or> c_head r2 = CHR ''E''"
  proof -
    have "c_head r2 = CHR ''e'' \<or> c_head r2 = CHR ''E'' \<Longrightarrow> r2 \<noteq> []"
      by (auto simp: NUL_def)
    then show ?thesis
      using consumed_peek [OF c2] consumed_more [OF c2] by (auto simp: has_exp_def)
  qed
  define l3 where "l3 = lexer_advance l2"
  define sign where "sign \<longleftrightarrow> pos l3 < input_len l3
     \<and> (lexer_peek l3 = CHR ''+'' \<or> lexer_peek l3 = CHR ''-'')"
  define l4 where "l4 = (if sign then lexer_advance l3 else l3)"
  have sn: "lexer_scan_number l =
      (if has_exp then
         if pos l4 \<ge> input_len l4 \<or> \<not> is_digit (lexer_peek l4)
         then (False, lexer_set_error l4 ''invalid number format'')
         else lexer_finish_number (pos l) True (lexer_advance_while is_digit l4)
       else lexer_finish_number (pos l) has_dot l2)"
    unfolding lexer_scan_number_def Let_def
    unfolding l1_def [symmetric]
    unfolding has_dot_def [symmetric]
    unfolding l2_def [symmetric]
    unfolding has_exp_def [symmetric]
    unfolding l3_def [symmetric]
    unfolding sign_def [symmetric]
    unfolding l4_def [symmetric]
    by (rule refl)
  have sp: "spec_number r0 = (case spec_exponent r2 of None \<Rightarrow> None
      | Some ex \<Rightarrow> Some (ip @ fr @ ex, fr \<noteq> [] \<or> ex \<noteq> []))"
    using rest by (simp add: spec_number_def Let_def ip_def [symmetric] r1_def [symmetric]
        fr_def [symmetric])
  show ?thesis
  proof (cases has_exp)
    case False
    then have "spec_exponent r2 = Some []"
      using exp by (simp add: spec_exponent_def)
    then have "spec_number r0 = Some (ip @ fr, has_dot)"
      using sp fr_dot by simp
    then show ?thesis
      using False c2 sn by auto
  next
    case True
    define e where "e = c_head r2"
    define r3 where "r3 = tl r2"
    have "r2 = e # r3"
      using True exp unfolding e_def r3_def by (intro c_head_eq) (auto simp: NUL_def)
    then have "consumed l l2 (ip @ fr) (e # r3)"
      using c2 by simp
    then have c3: "consumed l l3 ((ip @ fr) @ [e]) r3"
      unfolding l3_def by (rule consumed_advance)
    have sg: "sign \<longleftrightarrow> c_head r3 = CHR ''+'' \<or> c_head r3 = CHR ''-''"
    proof -
      have "c_head r3 = CHR ''+'' \<or> c_head r3 = CHR ''-'' \<Longrightarrow> r3 \<noteq> []"
        by (auto simp: NUL_def)
      then show ?thesis
        using consumed_peek [OF c3] consumed_more [OF c3] by (auto simp: sign_def)
    qed
    define st where "st = (if sign then [c_head r3] else [])"
    define r4 where "r4 = drop (length st) r3"
    have c4: "consumed l l4 (((ip @ fr) @ [e]) @ st) r4"
    proof (cases sign)
      case True
      then have "r3 = c_head r3 # tl r3"
        using sg by (intro c_head_eq) (auto simp: NUL_def)
      then have "consumed l l3 ((ip @ fr) @ [e]) (c_head r3 # tl r3)"
        using c3 by simp
      then have "consumed l (lexer_advance l3) (((ip @ fr) @ [e]) @ [c_head r3]) (tl r3)"
        by (rule consumed_advance)
      then show ?thesis
        using True by (simp add: l4_def st_def r4_def drop_Suc)
    next
      case False
      then show ?thesis
        using c3 by (simp add: l4_def st_def r4_def)
    qed
    define ds where "ds = takeWhile is_digit r4"
    have fail: "pos l4 \<ge> input_len l4 \<or> \<not> is_digit (lexer_peek l4) \<longleftrightarrow> ds = []"
    proof -
      have "ds = [] \<longleftrightarrow> \<not> is_digit (c_head r4)"
        using is_digit_c_head [of r4] by (cases r4) (auto simp: ds_def)
      then show ?thesis
        using consumed_peek [OF c4] consumed_more [OF c4] is_digit_c_head [of r4] by auto
    qed
    have se: "spec_exponent r2 = (if ds = [] then None else Some (e # st @ ds))"
      using True exp sg
      by (simp add: spec_exponent_def Let_def e_def [symmetric] r3_def [symmetric]
          st_def r4_def ds_def)
    show ?thesis
    proof (cases "ds = []")
      case True
      then have "spec_number r0 = None"
        using sp se by simp
      then show ?thesis
        using True \<open>has_exp\<close> sn fail by auto
    next
      case False
      then have "spec_number r0 = Some (ip @ fr @ e # st @ ds, True)"
        using sp se by simp
      moreover have "consumed l (lexer_advance_while is_digit l4)
          ((((ip @ fr) @ [e]) @ st) @ ds) (dropWhile is_digit r4)"
        unfolding ds_def using c4 by (rule consumed_advance_while)
      ultimately show ?thesis
        using False \<open>has_exp\<close> sn fail by auto
    qed
  qed
qed

section \<open>The current-token accessor\<close>

text \<open>
  C10. \<^verbatim>\<open>lexer_current_token\<close> returns a token exactly when the most recent
  \<^verbatim>\<open>lexer_next_token\<close> call succeeded: it returns \<^verbatim>\<open>NULL\<close> on a new lexer, and after a
  call it returns the token slot if the call succeeded and \<^verbatim>\<open>NULL\<close> if it failed.
\<close>

theorem current_token_iff_success:
  "lexer_current_token (lexer_create inp) = None
   \<and> lexer_current_token (snd (lexer_next_token l))
       = (if fst (lexer_next_token l)
          then Some (current_token (snd (lexer_next_token l))) else None)"
  by (simp add: lexer_current_token_def lexer_create_def lexer_next_token_def Let_def
        split: prod.splits)

theorem current_token_iff_success_witness:
  "lexer_current_token (snd (lexer_next_token (lexer_create ''1e''))) = None
   \<and> \<not> fst (lexer_next_token (lexer_create ''1e''))
   \<and> fst (lexer_next_token (lexer_create ''ab''))
   \<and> lexer_current_token (snd (lexer_next_token (lexer_create ''ab'')))
       = Some (current_token (snd (lexer_next_token (lexer_create ''ab''))))"
proof -
  have a: "\<not> fst (lexer_next_token (lexer_create ''1e''))"
    by code_simp
  have b: "fst (lexer_next_token (lexer_create ''ab''))"
    by code_simp
  show ?thesis
    using current_token_iff_success [of "[]" "lexer_create ''1e''"]
      current_token_iff_success [of "[]" "lexer_create ''ab''"] a b
    by simp
qed

section \<open>Keywords that the binary search misses\<close>

text \<open>
  When the candidate is a proper prefix of the spelling probed, \<^verbatim>\<open>strncasecmp\<close> bounded
  by the candidate's length returns zero, the length test fails, and the search goes
  right, although the candidate sorts before the spelling probed. The search for
  \<^verbatim>\<open>or\<close> probes \<^verbatim>\<open>leading\<close>, \<^verbatim>\<open>row\<close>, \<^verbatim>\<open>overlay\<close>, \<^verbatim>\<open>not\<close>, \<^verbatim>\<open>only\<close>, \<^verbatim>\<open>order\<close>, \<^verbatim>\<open>outer\<close>
  and ends without a match: at \<^verbatim>\<open>order\<close> it goes right, past \<^verbatim>\<open>or\<close>.
\<close>

lemma keyword_as_missed: "lookup_keyword ''as'' 2 = TOKEN_IDENT"
  by code_simp

lemma keyword_char_missed: "lookup_keyword ''char'' 4 = TOKEN_IDENT"
  by code_simp

lemma keyword_in_missed: "lookup_keyword ''in'' 2 = TOKEN_IDENT"
  by code_simp

lemma keyword_no_missed: "lookup_keyword ''no'' 2 = TOKEN_IDENT"
  by code_simp

lemma keyword_on_missed: "lookup_keyword ''on'' 2 = TOKEN_IDENT"
  by code_simp

lemma keyword_over_missed: "lookup_keyword ''over'' 4 = TOKEN_IDENT"
  by code_simp

lemma keyword_time_missed: "lookup_keyword ''time'' 4 = TOKEN_IDENT"
  by code_simp

text \<open>
  C3. Every spelling of the keyword table, in any ASCII case, scans as its reserved-word
  kind, and a strict extension such as \<^verbatim>\<open>andx\<close> as an identifier. The code does not do
  the first for the spelling \<^verbatim>\<open>or\<close>, in either case: the table has the entry, and the
  lookup and the lexer answer with the identifier kind. (\<^verbatim>\<open>andx\<close> is an identifier and
  \<^verbatim>\<open>sElEcT\<close> is found, as the claim says.)
\<close>

theorem keyword_or_scans_as_identifier:
  "(''or'', TOKEN_OR) \<in> set keyword_table
   \<and> TOKEN_OR \<noteq> TOKEN_IDENT
   \<and> lookup_keyword ''or'' 2 = TOKEN_IDENT
   \<and> lookup_keyword ''OR'' 2 = TOKEN_IDENT
   \<and> fst (lexer_next_token (lexer_create ''or''))
   \<and> tok_type (current_token (snd (lexer_next_token (lexer_create ''or'')))) = TOKEN_IDENT
   \<and> lookup_keyword ''andx'' 4 = TOKEN_IDENT
   \<and> lookup_keyword ''sElEcT'' 6 = TOKEN_SELECT"
proof -
  have 1: "(''or'', TOKEN_OR) \<in> set keyword_table"
    by (simp add: keyword_table_def)
  have 2: "TOKEN_OR \<noteq> TOKEN_IDENT"
    by (simp add: tok_defs)
  have 3: "lookup_keyword ''or'' 2 = TOKEN_IDENT"
    by code_simp
  have 4: "fst (lexer_next_token (lexer_create ''or''))"
    by code_simp
  have 5: "tok_type (current_token (snd (lexer_next_token (lexer_create ''or'')))) = TOKEN_IDENT"
    by code_simp
  have 6: "lookup_keyword ''andx'' 4 = TOKEN_IDENT"
    by code_simp
  have 7: "lookup_keyword ''sElEcT'' 6 = TOKEN_SELECT"
    by code_simp
  have 8: "lookup_keyword ''OR'' 2 = TOKEN_IDENT"
    by code_simp
  show ?thesis
    by (intro conjI 1 2 3 8 4 5 6 7)
qed

section \<open>Unterminated block comments\<close>

text \<open>
  C2. An unterminated block comment is skipped to the end of the input, the next token
  is the end-of-input token, and no error is raised. The code does not do this: the loop
  of \<^verbatim>\<open>lexer_skip_comment\<close> runs while two bytes are left and so stops before the last
  byte, which the driver then scans as a token. On \<^verbatim>\<open>/*a\<close> the first call returns the
  identifier \<^verbatim>\<open>a\<close> at offset 2; on \<^verbatim>\<open>/* x !\<close> it fails with an error.
\<close>

theorem unterminated_comment_leaves_last_byte:
  "fst (lexer_next_token (lexer_create ''/*a''))
   \<and> tok_type (current_token (snd (lexer_next_token (lexer_create ''/*a'')))) = TOKEN_IDENT
   \<and> tok_value (current_token (snd (lexer_next_token (lexer_create ''/*a'')))) = Some ''a''
   \<and> offset (location (current_token (snd (lexer_next_token (lexer_create ''/*a''))))) = 2
   \<and> TOKEN_IDENT \<noteq> TOKEN_EOF
   \<and> \<not> fst (lexer_next_token (lexer_create ''/* x !''))
   \<and> error_msg (snd (lexer_next_token (lexer_create ''/* x !'')))
       = Some (''unexpected character '' @ [squote, CHR ''!'', squote])"
proof -
  have 1: "fst (lexer_next_token (lexer_create ''/*a''))"
    by code_simp
  have 2: "tok_type (current_token (snd (lexer_next_token (lexer_create ''/*a''))))
             = TOKEN_IDENT"
    by code_simp
  have 3: "tok_value (current_token (snd (lexer_next_token (lexer_create ''/*a''))))
             = Some ''a''"
    by code_simp
  have 4: "offset (location (current_token (snd (lexer_next_token (lexer_create ''/*a'')))))
             = 2"
    by code_simp
  have 5: "TOKEN_IDENT \<noteq> TOKEN_EOF"
    by (simp add: tok_defs)
  have 6: "\<not> fst (lexer_next_token (lexer_create ''/* x !''))"
    by code_simp
  have 7: "error_msg (snd (lexer_next_token (lexer_create ''/* x !'')))
             = Some (''unexpected character '' @ [squote, CHR ''!'', squote])"
    by code_simp
  show ?thesis
    by (intro conjI 1 2 3 4 5 6 7)
qed

section \<open>The text and the location of a token\<close>

text \<open>
  C1, as the spec states it: the text of every token but the end-of-input token is the
  slice of the input that starts at the token's offset and has the token's length. It
  fails for string constants. The location is taken at the opening quote, and
  \<^verbatim>\<open>lexer_scan_string\<close> copies from the byte after it up to the closing quote: on the
  input \<^verbatim>\<open>'ab'\<close> the token has offset 0, length 2 and text \<^verbatim>\<open>ab\<close>, and the slice of
  length 2 at offset 0 is \<^verbatim>\<open>'a\<close>.
\<close>

theorem string_token_text_is_not_slice_at_offset:
  "fst (lexer_next_token (lexer_create [squote, CHR ''a'', CHR ''b'', squote]))
   \<and> tok_type (current_token (snd (lexer_next_token (lexer_create [squote, CHR ''a'', CHR ''b'', squote])))) = TOKEN_SCONST
   \<and> TOKEN_SCONST \<noteq> TOKEN_EOF
   \<and> offset (location (current_token (snd (lexer_next_token (lexer_create [squote, CHR ''a'', CHR ''b'', squote]))))) = 0
   \<and> tok_length (current_token (snd (lexer_next_token (lexer_create [squote, CHR ''a'', CHR ''b'', squote])))) = 2
   \<and> tok_value (current_token (snd (lexer_next_token (lexer_create [squote, CHR ''a'', CHR ''b'', squote])))) = Some ''ab''
   \<and> slice (input (snd (lexer_next_token (lexer_create [squote, CHR ''a'', CHR ''b'', squote])))) (nat (offset (location (current_token (snd (lexer_next_token (lexer_create [squote, CHR ''a'', CHR ''b'', squote]))))))) (tok_length (current_token (snd (lexer_next_token (lexer_create [squote, CHR ''a'', CHR ''b'', squote])))))
       = [squote, CHR ''a'']
   \<and> tok_value (current_token (snd (lexer_next_token (lexer_create [squote, CHR ''a'', CHR ''b'', squote]))))
       \<noteq> Some (slice (input (snd (lexer_next_token (lexer_create [squote, CHR ''a'', CHR ''b'', squote])))) (nat (offset (location (current_token (snd (lexer_next_token (lexer_create [squote, CHR ''a'', CHR ''b'', squote])))))))
                 (tok_length (current_token (snd (lexer_next_token (lexer_create [squote, CHR ''a'', CHR ''b'', squote]))))))"
proof -
  have 1: "fst (lexer_next_token (lexer_create [squote, CHR ''a'', CHR ''b'', squote]))"
    by code_simp
  have 2: "tok_type (current_token (snd (lexer_next_token (lexer_create [squote, CHR ''a'', CHR ''b'', squote])))) = TOKEN_SCONST"
    by code_simp
  have 3: "TOKEN_SCONST \<noteq> TOKEN_EOF"
    by (simp add: tok_defs)
  have 4: "offset (location (current_token (snd (lexer_next_token (lexer_create [squote, CHR ''a'', CHR ''b'', squote]))))) = 0"
    by code_simp
  have 5: "tok_length (current_token (snd (lexer_next_token (lexer_create [squote, CHR ''a'', CHR ''b'', squote])))) = 2"
    by code_simp
  have 6: "tok_value (current_token (snd (lexer_next_token (lexer_create [squote, CHR ''a'', CHR ''b'', squote])))) = Some ''ab''"
    by code_simp
  have 7: "slice (input (snd (lexer_next_token (lexer_create [squote, CHR ''a'', CHR ''b'', squote])))) (nat (offset (location (current_token (snd (lexer_next_token (lexer_create [squote, CHR ''a'', CHR ''b'', squote]))))))) (tok_length (current_token (snd (lexer_next_token (lexer_create [squote, CHR ''a'', CHR ''b'', squote])))))
       = [squote, CHR ''a'']"
    by code_simp
  have 8: "tok_value (current_token (snd (lexer_next_token (lexer_create [squote, CHR ''a'', CHR ''b'', squote]))))
       \<noteq> Some (slice (input (snd (lexer_next_token (lexer_create [squote, CHR ''a'', CHR ''b'', squote])))) (nat (offset (location (current_token (snd (lexer_next_token (lexer_create [squote, CHR ''a'', CHR ''b'', squote])))))))
                 (tok_length (current_token (snd (lexer_next_token (lexer_create [squote, CHR ''a'', CHR ''b'', squote]))))))"
    unfolding 6 7 by (simp add: squote_def)
  show ?thesis
    by (intro conjI 1 2 3 4 5 6 7 8)
qed

text \<open>
  C1, amended. For an input shorter than \<open>2^31\<close> bytes, after a successful call that
  produced neither the end-of-input token nor one of the three-byte operators \<^verbatim>\<open>->>\<close>,
  \<^verbatim>\<open>#>>\<close>, \<^verbatim>\<open>!~*\<close> (whose scanning writes past the token's buffer), the input is unchanged,
  the token's text lies inside its buffer, its offset is not negative, and
  \<^item> a token that is not a string constant has as its text the slice of the input that
    starts at its offset and has its length, and the slice lies inside the input;
  \<^item> a string constant has as its text the slice that starts one byte after its offset
    and has its length: the bytes between the delimiters as they are written. The byte
    at the offset is a quote, \<^verbatim>\<open>'\<close> or \<^verbatim>\<open>"\<close>, and the byte after the text is the same quote.
\<close>

theorem token_text_is_source_slice:
  assumes "lexer_next_token l = (True, l')"
    and "tok_type (current_token l') \<noteq> TOKEN_EOF"
    and "\<not> three_byte_kind (tok_type (current_token l'))"
    and "length (input l) < 2 ^ 31"
  shows "input l' = input l
    \<and> token_in_bounds (current_token l')
    \<and> 0 \<le> offset (location (current_token l'))
    \<and> (tok_type (current_token l') \<noteq> TOKEN_SCONST \<longrightarrow>
         tok_value (current_token l')
           = Some (slice (input l') (nat (offset (location (current_token l'))))
                    (tok_length (current_token l')))
         \<and> nat (offset (location (current_token l'))) + tok_length (current_token l')
             \<le> length (input l'))
    \<and> (tok_type (current_token l') = TOKEN_SCONST \<longrightarrow>
         tok_value (current_token l')
           = Some (slice (input l') (nat (offset (location (current_token l'))) + 1)
                    (tok_length (current_token l')))
         \<and> nat (offset (location (current_token l'))) + 1 + tok_length (current_token l')
             < length (input l')
         \<and> (input l' ! nat (offset (location (current_token l'))) = squote
              \<or> input l' ! nat (offset (location (current_token l'))) = dquote)
         \<and> input l' ! (nat (offset (location (current_token l'))) + 1
                          + tok_length (current_token l'))
             = input l' ! nat (offset (location (current_token l'))))"
  using assms(1)
proof (cases rule: next_token_cases)
  case (eof l1)
  with assms(2) show ?thesis
    by simp
next
  case (token l1 l2)
  have peek: "lexer_peek l1 = input l1 ! pos l1"
    using token(1) by (simp add: lexer_peek_def)
  have "int (pos l1) < 2 ^ 31"
    using token(1,2) assms(4) by (simp add: input_len_def)
  then have off: "offset (location (current_token l1)) = int (pos l1)"
    using token(3) by (simp add: int32_id)
  show ?thesis
    using token peek off assms(3)
    by (auto simp: token_ok_def text_at_def input_len_def split: if_splits)
qed

theorem token_text_is_source_slice_witness:
  "lexer_next_token (lexer_create (''ab '' @ [squote, CHR ''c'', CHR ''d'', squote])) = (True, (snd (lexer_next_token (lexer_create (''ab '' @ [squote, CHR ''c'', CHR ''d'', squote])))))
   \<and> tok_type (current_token (snd (lexer_next_token (lexer_create (''ab '' @ [squote, CHR ''c'', CHR ''d'', squote]))))) \<noteq> TOKEN_EOF
   \<and> tok_type (current_token (snd (lexer_next_token (lexer_create (''ab '' @ [squote, CHR ''c'', CHR ''d'', squote]))))) \<noteq> TOKEN_SCONST
   \<and> tok_value (current_token (snd (lexer_next_token (lexer_create (''ab '' @ [squote, CHR ''c'', CHR ''d'', squote])))))
       = Some (slice (input (snd (lexer_next_token (lexer_create (''ab '' @ [squote, CHR ''c'', CHR ''d'', squote]))))) (nat (offset (location (current_token (snd (lexer_next_token (lexer_create (''ab '' @ [squote, CHR ''c'', CHR ''d'', squote]))))))))
                (tok_length (current_token (snd (lexer_next_token (lexer_create (''ab '' @ [squote, CHR ''c'', CHR ''d'', squote])))))))
   \<and> lexer_next_token (snd (lexer_next_token (lexer_create (''ab '' @ [squote, CHR ''c'', CHR ''d'', squote])))) = (True, (snd (lexer_next_token (snd (lexer_next_token (lexer_create (''ab '' @ [squote, CHR ''c'', CHR ''d'', squote])))))))
   \<and> tok_type (current_token (snd (lexer_next_token (snd (lexer_next_token (lexer_create (''ab '' @ [squote, CHR ''c'', CHR ''d'', squote]))))))) = TOKEN_SCONST
   \<and> tok_value (current_token (snd (lexer_next_token (snd (lexer_next_token (lexer_create (''ab '' @ [squote, CHR ''c'', CHR ''d'', squote])))))))
       = Some (slice (input (snd (lexer_next_token (snd (lexer_next_token (lexer_create (''ab '' @ [squote, CHR ''c'', CHR ''d'', squote]))))))) (nat (offset (location (current_token (snd (lexer_next_token (snd (lexer_next_token (lexer_create (''ab '' @ [squote, CHR ''c'', CHR ''d'', squote]))))))))) + 1)
                (tok_length (current_token (snd (lexer_next_token (snd (lexer_next_token (lexer_create (''ab '' @ [squote, CHR ''c'', CHR ''d'', squote])))))))))"
proof -
  have "fst (lexer_next_token (lexer_create (''ab '' @ [squote, CHR ''c'', CHR ''d'', squote])))"
    by code_simp
  then have a: "lexer_next_token (lexer_create (''ab '' @ [squote, CHR ''c'', CHR ''d'', squote])) = (True, (snd (lexer_next_token (lexer_create (''ab '' @ [squote, CHR ''c'', CHR ''d'', squote])))))"
    by (simp add: prod_eq_iff)
  have b: "tok_type (current_token (snd (lexer_next_token (lexer_create (''ab '' @ [squote, CHR ''c'', CHR ''d'', squote]))))) \<noteq> TOKEN_EOF"
    by code_simp
  have c: "tok_type (current_token (snd (lexer_next_token (lexer_create (''ab '' @ [squote, CHR ''c'', CHR ''d'', squote]))))) \<noteq> TOKEN_SCONST"
    by code_simp
  have k1: "\<not> three_byte_kind (tok_type (current_token (snd (lexer_next_token (lexer_create (''ab '' @ [squote, CHR ''c'', CHR ''d'', squote]))))))"
    by code_simp
  have n1: "length (input (lexer_create (''ab '' @ [squote, CHR ''c'', CHR ''d'', squote]))) < 2 ^ 31"
    by (simp add: lexer_create_def)
  have "fst (lexer_next_token (snd (lexer_next_token (lexer_create (''ab '' @ [squote, CHR ''c'', CHR ''d'', squote])))))"
    by code_simp
  then have d: "lexer_next_token (snd (lexer_next_token (lexer_create (''ab '' @ [squote, CHR ''c'', CHR ''d'', squote])))) = (True, (snd (lexer_next_token (snd (lexer_next_token (lexer_create (''ab '' @ [squote, CHR ''c'', CHR ''d'', squote])))))))"
    by (simp add: prod_eq_iff)
  have e: "tok_type (current_token (snd (lexer_next_token (snd (lexer_next_token (lexer_create (''ab '' @ [squote, CHR ''c'', CHR ''d'', squote]))))))) = TOKEN_SCONST"
    by code_simp
  have f: "tok_type (current_token (snd (lexer_next_token (snd (lexer_next_token (lexer_create (''ab '' @ [squote, CHR ''c'', CHR ''d'', squote]))))))) \<noteq> TOKEN_EOF"
    unfolding e by (simp add: tok_defs)
  have k2: "\<not> three_byte_kind (tok_type (current_token (snd (lexer_next_token (snd (lexer_next_token (lexer_create (''ab '' @ [squote, CHR ''c'', CHR ''d'', squote]))))))))"
    unfolding e by (simp add: three_byte_kind_def tok_defs)
  have "input (snd (lexer_next_token (lexer_create (''ab '' @ [squote, CHR ''c'', CHR ''d'', squote])))) = input (lexer_create (''ab '' @ [squote, CHR ''c'', CHR ''d'', squote]))"
    using token_text_is_source_slice [OF a b k1 n1] by simp
  with n1 have n2: "length (input (snd (lexer_next_token (lexer_create (''ab '' @ [squote, CHR ''c'', CHR ''d'', squote]))))) < 2 ^ 31"
    by simp
  show ?thesis
    using token_text_is_source_slice [OF a b k1 n1] token_text_is_source_slice [OF d f k2 n2]
      a b c d e
    by simp
qed

section \<open>The end of the input\<close>

text \<open>
  C9. Once a call has produced the end-of-input token, the next call succeeds and leaves
  the lexer as it is: the token slot still holds the end-of-input token and the position
  is the same. So does every call after it: any number of further calls leaves the lexer
  unchanged.
\<close>

theorem end_of_input_is_stable:
  assumes "lexer_next_token l = (True, l')"
    and "tok_type (current_token l') = TOKEN_EOF"
  shows "lexer_next_token l' = (True, l')
    \<and> ((\<lambda>x. snd (lexer_next_token x)) ^^ n) l' = l'"
proof -
  from assms(1) have fp: "lexer_next_token l' = (True, l')"
  proof (cases rule: next_token_cases)
    case (eof l1)
    have "lexer_skip_loop l' = l'"
      using eof by (intro lexer_skip_loop_at_end) (simp add: input_len_def)
    then show ?thesis
      using eof
      by (simp add: lexer_next_token_def Let_def token_set_location_def input_len_def)
  next
    case (token l1 l2)
    with assms(2) show ?thesis
      by (auto simp: token_ok_def tok_defs split: if_splits)
  qed
  have "((\<lambda>x. snd (lexer_next_token x)) ^^ n) l' = l'"
    by (induction n) (simp_all add: fp)
  with fp show ?thesis
    by simp
qed

theorem end_of_input_is_stable_witness:
  "lexer_next_token (lexer_create '' '') = (True, (snd (lexer_next_token (lexer_create '' ''))))
   \<and> tok_type (current_token (snd (lexer_next_token (lexer_create '' '')))) = TOKEN_EOF
   \<and> lexer_next_token (snd (lexer_next_token (lexer_create '' ''))) = (True, (snd (lexer_next_token (lexer_create '' ''))))
   \<and> snd (lexer_next_token (snd (lexer_next_token (snd (lexer_next_token (lexer_create '' '')))))) = (snd (lexer_next_token (lexer_create '' '')))"
proof -
  have "fst (lexer_next_token (lexer_create '' ''))"
    by code_simp
  then have a: "lexer_next_token (lexer_create '' '') = (True, (snd (lexer_next_token (lexer_create '' ''))))"
    by (simp add: prod_eq_iff)
  have b: "tok_type (current_token (snd (lexer_next_token (lexer_create '' '')))) = TOKEN_EOF"
    by code_simp
  show ?thesis
    using end_of_input_is_stable [OF a b, of 2] a b
    by (simp add: numeral_2_eq_2)
qed

section \<open>Longest match\<close>

text \<open>
  When the input at the position of the lexer begins with the three bytes \<^verbatim>\<open>->>\<close>, the
  operator scanner takes the longest match: one token of the kind
  \<^verbatim>\<open>TOKEN_JSON_EXTRACT_TEXT\<close>, of length 3 and text \<^verbatim>\<open>->>\<close>, with the three bytes consumed.
  But it writes the three bytes and the terminator into the buffer of three bytes that
  it allocated: on every such input the token does not lie inside its buffer.
\<close>

lemma arrow_arrow_token:
  assumes "drop (pos l) (input l) = ''->>'' @ rest"
  shows "fst (lexer_next_token l)
    \<and> tok_type (current_token (snd (lexer_next_token l))) = TOKEN_JSON_EXTRACT_TEXT
    \<and> tok_value (current_token (snd (lexer_next_token l))) = Some ''->>''
    \<and> tok_length (current_token (snd (lexer_next_token l))) = 3
    \<and> tok_alloc (current_token (snd (lexer_next_token l))) = 3
    \<and> \<not> token_in_bounds (current_token (snd (lexer_next_token l)))
    \<and> pos (snd (lexer_next_token l)) = pos l + 3
    \<and> input (snd (lexer_next_token l)) = input l"
proof -
  from assms have d0: "drop (pos l) (input l) = CHR ''-'' # CHR ''>'' # CHR ''>'' # rest"
    by simp
  note a0 = at_drop [OF d0]
  from a0(4) have d1: "drop (pos l + 1) (input l) = CHR ''>'' # CHR ''>'' # rest"
    by simp
  note a1 = drop_eq_ConsD [OF d1]
  from a1 have d2: "drop (pos l + 2) (input l) = CHR ''>'' # rest"
    by simp
  note a2 = drop_eq_ConsD [OF d2]
  have nt: "lexer_next_token l
    = (fst (lexer_dispatch (token_start l)),
       (snd (lexer_dispatch (token_start l)))\<lparr>has_current := fst (lexer_dispatch (token_start l))\<rparr>)"
    using a0 a1 by (intro next_token_at) (simp_all add: is_space_def at_comment_def newline_def)
  have op: "lexer_dispatch (token_start l)
    = op3 TOKEN_JSON_EXTRACT_TEXT (CHR ''-'') (CHR ''>'') (CHR ''>'')
        (lexer_advance (token_set_text (token_palloc (token_start l) 3) [CHR ''-''] 1))"
    using a0 a1 a2
    by (simp add: lexer_dispatch_def lexer_scan_operator_def Let_def squote_def dquote_def
        is_digit_def is_alpha_def code_def third_is_def token_set_text_def token_palloc_def
        lexer_advance_def input_len_def lexer_peek_def)
  show ?thesis
    using a0 a1 a2 unfolding nt op
    by (simp add: op3_def token_set_text_def token_set_type_def token_palloc_def
        token_in_bounds_def lexer_advance_def input_len_def lexer_peek_def token_start_def
        token_set_location_def newline_def)
qed

text \<open>
  C6. On an input that begins with \<^verbatim>\<open>->>\<close> the first call yields one token of the
  JSON-extract-as-text kind with length 3. The code takes the longest match, but not as
  a defined C program: for the input \<^verbatim>\<open>->>\<close> the token's buffer is the \<^verbatim>\<open>palloc(3)\<close> of
  \<^verbatim>\<open>lexer_scan_operator\<close>, the text has three bytes, and its terminator is written at
  index 3, outside the buffer.
\<close>

theorem arrow_arrow_overruns_buffer:
  "fst (lexer_next_token (lexer_create ''->>''))
   \<and> tok_type (current_token (snd (lexer_next_token (lexer_create ''->>'')))) = TOKEN_JSON_EXTRACT_TEXT
   \<and> tok_value (current_token (snd (lexer_next_token (lexer_create ''->>'')))) = Some ''->>''
   \<and> tok_length (current_token (snd (lexer_next_token (lexer_create ''->>'')))) = 3
   \<and> tok_alloc (current_token (snd (lexer_next_token (lexer_create ''->>'')))) = 3
   \<and> \<not> token_in_bounds (current_token (snd (lexer_next_token (lexer_create ''->>''))))"
proof -
  have 1: "fst (lexer_next_token (lexer_create ''->>''))"
    by code_simp
  have 2: "tok_type (current_token (snd (lexer_next_token (lexer_create ''->>'')))) = TOKEN_JSON_EXTRACT_TEXT"
    by code_simp
  have 3: "tok_value (current_token (snd (lexer_next_token (lexer_create ''->>'')))) = Some ''->>''"
    by code_simp
  have 4: "tok_length (current_token (snd (lexer_next_token (lexer_create ''->>'')))) = 3"
    by code_simp
  have 5: "tok_alloc (current_token (snd (lexer_next_token (lexer_create ''->>'')))) = 3"
    by code_simp
  have 6: "\<not> token_in_bounds (current_token (snd (lexer_next_token (lexer_create ''->>''))))"
    by code_simp
  show ?thesis
    by (intro conjI 1 2 3 4 5 6)
qed

section \<open>Parameter markers\<close>

text \<open>
  C8. When the input at the position of the lexer is \<^verbatim>\<open>$\<close> followed by \<open>r\<close>, the digits
  scanned are the longest run of digits at the head of \<open>r\<close>.
  \<^item> If the run is empty (\<open>r\<close> is empty or begins with a byte that is no digit) the call
    fails, the error message is \<^verbatim>\<open>invalid parameter marker\<close> and there is no current token.
  \<^item> Otherwise the call succeeds with a \<^verbatim>\<open>TOKEN_PARAM\<close> token whose text is \<^verbatim>\<open>$\<close> and the
    run, and whose integer value is what \<^verbatim>\<open>strtoll\<close> in base 10 reads from the run: the
    number the digits write, whenever that is at most \<^verbatim>\<open>LLONG_MAX\<close>.
\<close>

theorem parameter_marker:
  assumes "drop (pos l) (input l) = CHR ''$'' # r"
  shows "if takeWhile is_digit r = []
     then \<not> fst (lexer_next_token l)
        \<and> error_msg (snd (lexer_next_token l)) = Some ''invalid parameter marker''
        \<and> lexer_current_token (snd (lexer_next_token l)) = None
     else fst (lexer_next_token l)
        \<and> tok_type (current_token (snd (lexer_next_token l))) = TOKEN_PARAM
        \<and> tok_value (current_token (snd (lexer_next_token l)))
            = Some (CHR ''$'' # takeWhile is_digit r)
        \<and> tok_length (current_token (snd (lexer_next_token l)))
            = 1 + length (takeWhile is_digit r)
        \<and> data (current_token (snd (lexer_next_token l)))
            = ival (strtoll (takeWhile is_digit r))
        \<and> (decimal (takeWhile is_digit r) \<le> LLONG_MAX \<longrightarrow>
             data (current_token (snd (lexer_next_token l)))
               = ival (decimal (takeWhile is_digit r)))
        \<and> pos (snd (lexer_next_token l)) = pos l + 1 + length (takeWhile is_digit r)"
proof -
  note a0 = at_drop [OF assms]
  define nx where "nx = (if pos l + 1 < input_len l then input l ! (pos l + 1) else NUL)"
  have nx: "is_digit nx \<longleftrightarrow> takeWhile is_digit r \<noteq> []"
  proof (cases r)
    case Nil
    with a0(4) have "\<not> pos l + 1 < input_len l"
      by (simp add: input_len_def)
    with Nil show ?thesis
      using is_digit_not_NUL by (auto simp: nx_def)
  next
    case (Cons d r')
    with a0(4) have "pos l + 1 < input_len l" "input l ! (pos l + 1) = d"
      using drop_eq_ConsD [of "Suc (pos l)" "input l" d r'] by (simp_all add: input_len_def)
    with Cons show ?thesis
      by (simp add: nx_def)
  qed
  have nt: "lexer_next_token l
    = (fst (lexer_dispatch (token_start l)),
       (snd (lexer_dispatch (token_start l)))\<lparr>has_current := fst (lexer_dispatch (token_start l))\<rparr>)"
    using a0 by (intro next_token_at) (simp_all add: is_space_def at_comment_def newline_def)
  define l1 where
    "l1 = lexer_advance (token_set_text (token_palloc (token_start l) 3) [CHR ''$''] 1)"
  have l1: "pos l1 = Suc (pos l)" "input l1 = input l" "error_msg l1 = error_msg l"
    using a0
    by (simp_all add: l1_def token_set_text_def token_palloc_def lexer_advance_def input_len_def)
  have op: "lexer_dispatch (token_start l) = lexer_scan_param nx l1"
    using a0
    by (simp add: lexer_dispatch_def lexer_scan_operator_def Let_def squote_def dquote_def
        is_digit_def is_alpha_def code_def nx_def l1_def)
  define l2 where "l2 = lexer_advance_while is_digit l1"
  have l2: "pos l2 = Suc (pos l) + length (takeWhile is_digit r)" "input l2 = input l"
    using pos_lexer_advance_while [of l1 is_digit] l1 a0
    by (simp_all add: l2_def input_len_def)
  have sl: "slice (input l) (Suc (pos l)) (length (takeWhile is_digit r)) = takeWhile is_digit r"
    using a0(4) by (simp add: slice_def take_length_takeWhile)
  have st: "decimal (takeWhile is_digit r) \<le> LLONG_MAX \<Longrightarrow>
      strtoll (takeWhile is_digit r) = decimal (takeWhile is_digit r)"
    by (simp add: strtoll_def)
  show ?thesis
    unfolding nt op lexer_scan_param_def Let_def l2_def [symmetric]
    using nx l1 l2 sl st
    by (simp add: lexer_current_token_def lexer_set_error_def token_set_text_def
        token_set_type_def token_set_data_def token_palloc_def)
qed

theorem parameter_marker_witness:
  "drop (pos (lexer_create ''$12'')) (input (lexer_create ''$12'')) = CHR ''$'' # ''12''
   \<and> fst (lexer_next_token (lexer_create ''$12''))
   \<and> tok_type (current_token (snd (lexer_next_token (lexer_create ''$12'')))) = TOKEN_PARAM
   \<and> data (current_token (snd (lexer_next_token (lexer_create ''$12'')))) = ival 12
   \<and> drop (pos (lexer_create ''$x'')) (input (lexer_create ''$x'')) = CHR ''$'' # ''x''
   \<and> \<not> fst (lexer_next_token (lexer_create ''$x''))
   \<and> error_msg (snd (lexer_next_token (lexer_create ''$x''))) = Some ''invalid parameter marker''"
proof -
  have a: "drop (pos (lexer_create ''$12'')) (input (lexer_create ''$12'')) = CHR ''$'' # ''12''"
    by (simp add: lexer_create_def)
  have b: "drop (pos (lexer_create ''$x'')) (input (lexer_create ''$x'')) = CHR ''$'' # ''x''"
    by (simp add: lexer_create_def)
  have ta: "takeWhile is_digit ''12'' = ''12''"
    by (simp add: is_digit_def code_def)
  have tb: "takeWhile is_digit ''x'' = []"
    by (simp add: is_digit_def code_def)
  have d: "decimal ''12'' = 12"
    by (simp add: decimal_def digit_val_def code_def)
  have st: "strtoll ''12'' = 12"
    unfolding strtoll_def ta d LLONG_MAX_def by simp
  show ?thesis
    using parameter_marker [OF a] parameter_marker [OF b] a b
    unfolding ta tb d st
    by (simp add: LLONG_MAX_def)
qed

section \<open>Escapes in string literals\<close>

text \<open>
  C4, as the spec states it: the value of the token for \<^verbatim>\<open>'it''s'\<close> is the four bytes
  \<^verbatim>\<open>it's\<close>, the doubled delimiter resolved to one. It is not: \<^verbatim>\<open>lexer_scan_string\<close> copies
  the bytes between the delimiters and no code rewrites them, so the value is the five
  bytes \<^verbatim>\<open>it''s\<close>. A token has no other field for a string.
\<close>

theorem doubled_delimiter_is_not_resolved:
  "fst (lexer_next_token (lexer_create [squote, CHR ''i'', CHR ''t'', squote, squote, CHR ''s'', squote]))
   \<and> tok_type (current_token (snd (lexer_next_token (lexer_create [squote, CHR ''i'', CHR ''t'', squote, squote, CHR ''s'', squote])))) = TOKEN_SCONST
   \<and> tok_length (current_token (snd (lexer_next_token (lexer_create [squote, CHR ''i'', CHR ''t'', squote, squote, CHR ''s'', squote])))) = 5
   \<and> tok_value (current_token (snd (lexer_next_token (lexer_create [squote, CHR ''i'', CHR ''t'', squote, squote, CHR ''s'', squote]))))
       = Some [CHR ''i'', CHR ''t'', squote, squote, CHR ''s'']
   \<and> tok_value (current_token (snd (lexer_next_token (lexer_create [squote, CHR ''i'', CHR ''t'', squote, squote, CHR ''s'', squote])))) \<noteq> Some [CHR ''i'', CHR ''t'', squote, CHR ''s'']"
proof -
  have 1: "fst (lexer_next_token (lexer_create [squote, CHR ''i'', CHR ''t'', squote, squote, CHR ''s'', squote]))"
    by code_simp
  have 2: "tok_type (current_token (snd (lexer_next_token (lexer_create [squote, CHR ''i'', CHR ''t'', squote, squote, CHR ''s'', squote])))) = TOKEN_SCONST"
    by code_simp
  have 3: "tok_length (current_token (snd (lexer_next_token (lexer_create [squote, CHR ''i'', CHR ''t'', squote, squote, CHR ''s'', squote])))) = 5"
    by code_simp
  have 4: "tok_value (current_token (snd (lexer_next_token (lexer_create [squote, CHR ''i'', CHR ''t'', squote, squote, CHR ''s'', squote]))))
       = Some [CHR ''i'', CHR ''t'', squote, squote, CHR ''s'']"
    by code_simp
  have 5: "tok_value (current_token (snd (lexer_next_token (lexer_create [squote, CHR ''i'', CHR ''t'', squote, squote, CHR ''s'', squote])))) \<noteq> Some [CHR ''i'', CHR ''t'', squote, CHR ''s'']"
    unfolding 4 by (simp add: squote_def)
  show ?thesis
    by (intro conjI 1 2 3 4 5)
qed

text \<open>
  C4, amended. A doubled delimiter inside a string literal does not end the literal and
  is kept in the token's value as it is written, both delimiters. For every string
  literal (its body any sequence of plain bytes, doubled delimiters and backslash pairs,
  no delimiter right after the closing one) whose body has the items \<open>pre\<close>, a doubled
  delimiter and the items \<open>post\<close>, the call succeeds with a string token whose value is
  the text of \<open>pre\<close>, the two delimiters and the text of \<open>post\<close>, the whole body as
  written. For \<^verbatim>\<open>'it''s'\<close> the value is \<^verbatim>\<open>it''s\<close>, five bytes.
\<close>

theorem doubled_delimiter_is_kept:
  assumes "drop (pos l) (input l) = q # body_text q (pre @ Doubled # post) @ q # r"
    and "q = squote \<or> q = dquote"
    and "list_all (item_ok q) (pre @ post)"
    and "r = [] \<or> hd r \<noteq> q"
  shows "fst (lexer_next_token l)
    \<and> tok_type (current_token (snd (lexer_next_token l))) = TOKEN_SCONST
    \<and> tok_value (current_token (snd (lexer_next_token l)))
        = Some (body_text q pre @ [q, q] @ body_text q post)
    \<and> tok_length (current_token (snd (lexer_next_token l)))
        = length (body_text q pre) + 2 + length (body_text q post)"
proof -
  have "list_all (item_ok q) (pre @ Doubled # post)"
    using assms(3) by simp
  from scan_string_body [OF assms(1,2) this assms(4)] show ?thesis
    by simp
qed

theorem doubled_delimiter_is_kept_witness:
  "drop (pos (lexer_create [squote, CHR ''i'', CHR ''t'', squote, squote, CHR ''s'', squote])) (input (lexer_create [squote, CHR ''i'', CHR ''t'', squote, squote, CHR ''s'', squote]))
     = squote # body_text squote ([Plain (CHR ''i''), Plain (CHR ''t'')] @ Doubled # [Plain (CHR ''s'')])
         @ squote # []
   \<and> fst (lexer_next_token (lexer_create [squote, CHR ''i'', CHR ''t'', squote, squote, CHR ''s'', squote]))
   \<and> tok_value (current_token (snd (lexer_next_token (lexer_create [squote, CHR ''i'', CHR ''t'', squote, squote, CHR ''s'', squote])))) = Some (''it'' @ [squote, squote] @ ''s'')
   \<and> tok_length (current_token (snd (lexer_next_token (lexer_create [squote, CHR ''i'', CHR ''t'', squote, squote, CHR ''s'', squote])))) = 5
   \<and> fst (lexer_next_token (lexer_create ([squote] @ ''a'' @ [squote, squote] @ ''b'' @ [squote, squote] @ ''c'' @ [squote])))
   \<and> tok_value (current_token (snd (lexer_next_token (lexer_create ([squote] @ ''a'' @ [squote, squote] @ ''b'' @ [squote, squote] @ ''c'' @ [squote])))))
       = Some (''a'' @ [squote, squote] @ ''b'' @ [squote, squote] @ ''c'')"
proof -
  have a: "drop (pos (lexer_create [squote, CHR ''i'', CHR ''t'', squote, squote, CHR ''s'', squote])) (input (lexer_create [squote, CHR ''i'', CHR ''t'', squote, squote, CHR ''s'', squote]))
      = squote # body_text squote ([Plain (CHR ''i''), Plain (CHR ''t'')] @ Doubled # [Plain (CHR ''s'')])
          @ squote # []"
    by (simp add: lexer_create_def)
  have a': "drop (pos (lexer_create ([squote] @ ''a'' @ [squote, squote] @ ''b'' @ [squote, squote] @ ''c'' @ [squote]))) (input (lexer_create ([squote] @ ''a'' @ [squote, squote] @ ''b'' @ [squote, squote] @ ''c'' @ [squote])))
      = squote # body_text squote ([Plain (CHR ''a'')] @ Doubled # [Plain (CHR ''b''), Doubled, Plain (CHR ''c'')])
          @ squote # []"
    by (simp add: lexer_create_def)
  have b: "squote = squote \<or> squote = dquote"
    by simp
  have c: "list_all (item_ok squote) ([Plain (CHR ''i''), Plain (CHR ''t'')] @ [Plain (CHR ''s'')])"
    by (simp add: squote_def backslash_def)
  have c': "list_all (item_ok squote)
      ([Plain (CHR ''a'')] @ [Plain (CHR ''b''), Doubled, Plain (CHR ''c'')])"
    by (simp add: squote_def backslash_def)
  have d: "[] = [] \<or> hd [] \<noteq> squote"
    by simp
  show ?thesis
    using doubled_delimiter_is_kept [OF a b c d] doubled_delimiter_is_kept [OF a' b c' d] a
    by simp
qed

text \<open>
  C7. A backslash inside a string literal and the byte after it, whatever it is, are
  both copied to the value as they are. For every string literal (its body any sequence
  of plain bytes, doubled delimiters and backslash pairs, no delimiter right after the
  closing one) whose body has the items \<open>pre\<close>, a backslash with a byte \<open>b\<close> and the
  items \<open>post\<close>, the call succeeds with a string token whose value is the text of \<open>pre\<close>,
  the backslash, \<open>b\<close> and the text of \<open>post\<close>, the whole body as written. For
  \<^verbatim>\<open>'line\nend'\<close> the value holds the backslash and the \<^verbatim>\<open>n\<close>, and no newline byte.
\<close>

theorem backslash_pair_is_copied:
  assumes "drop (pos l) (input l) = q # body_text q (pre @ Escaped b # post) @ q # r"
    and "q = squote \<or> q = dquote"
    and "list_all (item_ok q) (pre @ post)"
    and "r = [] \<or> hd r \<noteq> q"
  shows "fst (lexer_next_token l)
    \<and> tok_type (current_token (snd (lexer_next_token l))) = TOKEN_SCONST
    \<and> tok_value (current_token (snd (lexer_next_token l)))
        = Some (body_text q pre @ [backslash, b] @ body_text q post)
    \<and> tok_length (current_token (snd (lexer_next_token l)))
        = length (body_text q pre) + 2 + length (body_text q post)"
proof -
  have "list_all (item_ok q) (pre @ Escaped b # post)"
    using assms(3) by simp
  from scan_string_body [OF assms(1,2) this assms(4)] show ?thesis
    by simp
qed

theorem backslash_pair_is_copied_witness:
  "drop (pos (lexer_create ([squote] @ ''line'' @ [backslash, CHR ''n''] @ ''end'' @ [squote]))) (input (lexer_create ([squote] @ ''line'' @ [backslash, CHR ''n''] @ ''end'' @ [squote])))
     = squote # body_text squote (map Plain ''line'' @ Escaped (CHR ''n'') # map Plain ''end'')
         @ squote # []
   \<and> fst (lexer_next_token (lexer_create ([squote] @ ''line'' @ [backslash, CHR ''n''] @ ''end'' @ [squote])))
   \<and> tok_type (current_token (snd (lexer_next_token (lexer_create ([squote] @ ''line'' @ [backslash, CHR ''n''] @ ''end'' @ [squote]))))) = TOKEN_SCONST
   \<and> tok_value (current_token (snd (lexer_next_token (lexer_create ([squote] @ ''line'' @ [backslash, CHR ''n''] @ ''end'' @ [squote]))))) = Some (''line'' @ [backslash, CHR ''n''] @ ''end'')
   \<and> tok_length (current_token (snd (lexer_next_token (lexer_create ([squote] @ ''line'' @ [backslash, CHR ''n''] @ ''end'' @ [squote]))))) = 9
   \<and> newline \<notin> set (''line'' @ [backslash, CHR ''n''] @ ''end'')
   \<and> fst (lexer_next_token (lexer_create ([dquote] @ [backslash, dquote] @ ''a'' @ [dquote, dquote] @ [backslash, backslash] @ [dquote])))
   \<and> tok_value (current_token (snd (lexer_next_token (lexer_create ([dquote] @ [backslash, dquote] @ ''a'' @ [dquote, dquote] @ [backslash, backslash] @ [dquote])))))
       = Some ([backslash, dquote] @ ''a'' @ [dquote, dquote] @ [backslash, backslash])"
proof -
  have a: "drop (pos (lexer_create ([squote] @ ''line'' @ [backslash, CHR ''n''] @ ''end'' @ [squote]))) (input (lexer_create ([squote] @ ''line'' @ [backslash, CHR ''n''] @ ''end'' @ [squote])))
      = squote # body_text squote (map Plain ''line'' @ Escaped (CHR ''n'') # map Plain ''end'')
          @ squote # []"
    by (simp add: lexer_create_def)
  have a': "drop (pos (lexer_create ([dquote] @ [backslash, dquote] @ ''a'' @ [dquote, dquote] @ [backslash, backslash] @ [dquote]))) (input (lexer_create ([dquote] @ [backslash, dquote] @ ''a'' @ [dquote, dquote] @ [backslash, backslash] @ [dquote])))
      = dquote # body_text dquote ([] @ Escaped dquote # [Plain (CHR ''a''), Doubled, Escaped backslash])
          @ dquote # []"
    by (simp add: lexer_create_def)
  have b: "squote = squote \<or> squote = dquote"
    by simp
  have b': "dquote = squote \<or> dquote = dquote"
    by simp
  have c: "list_all (item_ok squote) (map Plain ''line'' @ map Plain ''end'')"
    by (simp add: squote_def backslash_def)
  have c': "list_all (item_ok dquote) ([] @ [Plain (CHR ''a''), Doubled, Escaped backslash])"
    by (simp add: dquote_def backslash_def)
  have d: "[] = [] \<or> hd [] \<noteq> squote"
    by simp
  have d': "[] = [] \<or> hd [] \<noteq> dquote"
    by simp
  have e: "newline \<notin> set (''line'' @ [backslash, CHR ''n''] @ ''end'')"
    by (simp add: newline_def backslash_def)
  show ?thesis
    using backslash_pair_is_copied [OF a b c d] backslash_pair_is_copied [OF a' b' c' d'] a e
    by simp
qed

section \<open>Numbers\<close>

text \<open>
  C5. \<^verbatim>\<open>lexer_scan_number\<close> does what the grammar of the spec says on the bytes ahead of
  the cursor. It fails exactly when \<open>spec_number\<close> is \<open>None\<close>, that is when an exponent
  marker is there and no digit follows the marker and the optional sign, and then the
  error message is \<^verbatim>\<open>invalid number format\<close>. Otherwise it succeeds, the text of the
  token is the number, the cursor has moved past it, the kind is \<^verbatim>\<open>TOKEN_ICONST\<close> when
  there is neither a fraction nor an exponent and \<^verbatim>\<open>TOKEN_FCONST\<close> when there is one, and
  the value is what \<^verbatim>\<open>strtoll\<close> in base 10, or \<^verbatim>\<open>strtod\<close>, reads from the text: for an
  integer, the number the digits write, whenever that is at most \<^verbatim>\<open>LLONG_MAX\<close>.
\<close>

theorem number_scanner_follows_grammar:
  "case spec_number (drop (pos l) (input l)) of
     None \<Rightarrow> \<not> fst (lexer_scan_number l)
       \<and> error_msg (snd (lexer_scan_number l)) = Some ''invalid number format''
   | Some (t, f) \<Rightarrow> fst (lexer_scan_number l)
       \<and> tok_value (current_token (snd (lexer_scan_number l))) = Some t
       \<and> tok_length (current_token (snd (lexer_scan_number l))) = length t
       \<and> pos (snd (lexer_scan_number l)) = pos l + length t
       \<and> tok_type (current_token (snd (lexer_scan_number l)))
           = (if f then TOKEN_FCONST else TOKEN_ICONST)
       \<and> data (current_token (snd (lexer_scan_number l)))
           = (if f then fval_strtod t else ival (strtoll t))
       \<and> (\<not> f \<and> decimal t \<le> LLONG_MAX \<longrightarrow>
            data (current_token (snd (lexer_scan_number l))) = ival (decimal t))"
proof (cases "spec_number (drop (pos l) (input l))")
  case None
  then show ?thesis
    using number_scanner_cases [of l] by (auto simp: lexer_set_error_def)
next
  case (Some a)
  obtain t f where a: "a = (t, f)"
    by (cases a)
  from Some a number_scanner_cases [of l] obtain lx r
    where c: "consumed l lx t r"
      and s: "lexer_scan_number l = lexer_finish_number (pos l) f lx"
    by auto
  have st: "strtoll t = decimal t" if "\<not> f" and "decimal t \<le> LLONG_MAX"
  proof -
    from Some a that(1) have "t = takeWhile is_digit (drop (pos l) (input l))"
      by (auto simp: spec_number_def Let_def split: option.splits)
    then have e: "takeWhile is_digit t = t"
      by simp
    show ?thesis
      unfolding strtoll_def e using that(2) by simp
  qed
  show ?thesis
    using Some a c st
    by (simp add: s consumed_finish_number [OF c] token_set_text_def token_set_type_def
        token_set_data_def token_palloc_def consumed_def)
qed

theorem number_scanner_follows_grammar_witness:
  "\<not> fst (lexer_scan_number (lexer_create ''1e''))
   \<and> error_msg (snd (lexer_scan_number (lexer_create ''1e''))) = Some ''invalid number format''
   \<and> fst (lexer_scan_number (lexer_create ''123''))
   \<and> tok_type (current_token (snd (lexer_scan_number (lexer_create ''123'')))) = TOKEN_ICONST
   \<and> data (current_token (snd (lexer_scan_number (lexer_create ''123'')))) = ival 123
   \<and> fst (lexer_scan_number (lexer_create ''1e5''))
   \<and> tok_type (current_token (snd (lexer_scan_number (lexer_create ''1e5'')))) = TOKEN_FCONST
   \<and> data (current_token (snd (lexer_scan_number (lexer_create ''1e5'')))) = fval_strtod ''1e5''
   \<and> fst (lexer_scan_number (lexer_create ''1.5e-3''))
   \<and> tok_type (current_token (snd (lexer_scan_number (lexer_create ''1.5e-3'')))) = TOKEN_FCONST
   \<and> tok_value (current_token (snd (lexer_scan_number (lexer_create ''1.5e-3'')))) = Some ''1.5e-3''"
proof -
  have a: "spec_number (drop (pos (lexer_create ''1e'')) (input (lexer_create ''1e''))) = None"
    by code_simp
  have b: "spec_number (drop (pos (lexer_create ''123'')) (input (lexer_create ''123''))) = Some (''123'', False)"
    by code_simp
  have c: "spec_number (drop (pos (lexer_create ''1e5'')) (input (lexer_create ''1e5''))) = Some (''1e5'', True)"
    by code_simp
  have d: "spec_number (drop (pos (lexer_create ''1.5e-3'')) (input (lexer_create ''1.5e-3''))) = Some (''1.5e-3'', True)"
    by code_simp
  have e: "decimal ''123'' = 123"
    by (simp add: decimal_def digit_val_def code_def)
  have t: "takeWhile is_digit ''123'' = ''123''"
    by (simp add: is_digit_def code_def)
  have st: "strtoll ''123'' = 123"
    unfolding strtoll_def t e LLONG_MAX_def by simp
  show ?thesis
    using number_scanner_follows_grammar [of "lexer_create ''1e''", unfolded a]
      number_scanner_follows_grammar [of "lexer_create ''123''", unfolded b]
      number_scanner_follows_grammar [of "lexer_create ''1e5''", unfolded c]
      number_scanner_follows_grammar [of "lexer_create ''1.5e-3''", unfolded d]
      e st
    by simp
qed

end
